theory Spec2Isabelle
  imports Main
begin

section \<open>User-identifier resolution (services/vendor.atlassian.users.service.ts)\<close>

text \<open>
  A shallow embedding of the users service: the two classifier predicates, the
  in-memory \<open>UserCache\<close>, the two search functions and \<open>resolveUserIdentifier\<close>.

  Strings are \<^typ>\<open>string\<close>; a \<^typ>\<open>char\<close> stands for one UTF-16 code unit below
  256 (the Latin-1 range), on which \<open>toLowerCase\<close>, the regular expressions and
  \<open>encodeURIComponent\<close> are written out exactly. Mutable state (the cache, the
  clock, the record of transport calls) is passed explicitly in a \<open>world\<close>; an
  exception is the \<open>Inl\<close> side of a sum.
\<close>

subsection \<open>Strings\<close>

text \<open>\<open>String.prototype.toLowerCase\<close> on Latin-1 code units: A-Z and the accented
  capitals U+00C0..U+00DE (without the multiplication sign U+00D7) move up by 32.\<close>

definition lowerChar :: "char \<Rightarrow> char" where
  "lowerChar c =
     (let n = (of_char c :: nat)
      in if (65 \<le> n \<and> n \<le> 90) \<or> (192 \<le> n \<and> n \<le> 222 \<and> n \<noteq> 215)
         then char_of (n + 32) else c)"

definition toLowerCase :: "string \<Rightarrow> string" where
  "toLowerCase s = map lowerChar s"

text \<open>\<open>encodeURIComponent\<close>: the unreserved characters stay, every other code unit is
  written as the percent-escaped bytes of its UTF-8 encoding (one byte below 128, two
  bytes from 128 to 255).\<close>

definition uriUnreserved :: "char \<Rightarrow> bool" where
  "uriUnreserved c =
     (c \<in> set ''ABCDEFGHIJKLMNOPQRSTUVWXYZabcdefghijklmnopqrstuvwxyz0123456789''
      \<or> c \<in> set [CHR ''-'', CHR ''_'', CHR ''.'', CHR ''!'', CHR ''~'', CHR ''*'',
                  CHR 0x27, CHR ''('', CHR '')''])"

definition hexDigitUpper :: "nat \<Rightarrow> char" where
  "hexDigitUpper n = ''0123456789ABCDEF'' ! (n mod 16)"

definition percentByte :: "nat \<Rightarrow> string" where
  "percentByte b = [CHR ''%'', hexDigitUpper (b div 16), hexDigitUpper (b mod 16)]"

definition encodeChar :: "char \<Rightarrow> string" where
  "encodeChar c =
     (let n = (of_char c :: nat)
      in if uriUnreserved c then [c]
         else if n < 128 then percentByte n
         else percentByte (192 + n div 64) @ percentByte (128 + n mod 64))"

definition encodeURIComponent :: "string \<Rightarrow> string" where
  "encodeURIComponent s = concat (map encodeChar s)"

subsection \<open>Classifier: isAccountId and isEmail\<close>

text \<open>The character class \<open>[0-9a-f]\<close>.\<close>

definition isHexLower :: "char \<Rightarrow> bool" where
  "isHexLower c = (c \<in> set ''0123456789abcdef'')"

text \<open>\<open>/^[0-9a-f]{6}:/\<close>: six characters of the class at the start, then a colon;
  anything may follow.\<close>

definition matchHex6Colon :: "string \<Rightarrow> bool" where
  "matchHex6Colon s =
     (case drop 6 s of
        [] \<Rightarrow> False
      | c # _ \<Rightarrow> list_all isHexLower (take 6 s) \<and> c = CHR '':'')"

text \<open>\<open>/^[0-9a-f-]{36}$/\<close>: the whole string is 36 characters of the class
  \<open>[0-9a-f-]\<close> (without the \<open>m\<close> flag, \<open>$\<close> is the end of the input).\<close>

definition matchHexHyphen36 :: "string \<Rightarrow> bool" where
  "matchHexHyphen36 s =
     (length s = 36 \<and> list_all (\<lambda>c. isHexLower c \<or> c = CHR ''-'') s)"

definition isAccountId :: "string \<Rightarrow> bool" where
  "isAccountId identifier = (matchHex6Colon identifier \<or> matchHexHyphen36 identifier)"

text \<open>The first shape as the specification words it, \<open>^[0-9a-f]{1,8}:\<close>: between one
  and eight characters of the class, then a colon. It is compared with
  \<open>matchHex6Colon\<close> below.\<close>

definition spec_matchHex1to8Colon :: "string \<Rightarrow> bool" where
  "spec_matchHex1to8Colon s =
     list_ex (\<lambda>n. n < length s \<and> list_all isHexLower (take n s) \<and> s ! n = CHR '':'')
       [1..<9]"

text \<open>The character class \<open>[^\s@]\<close>: \<open>\s\<close> is tab, line feed, vertical tab, form
  feed, carriage return, space and the no-break space U+00A0 (its other members lie
  above U+00FF).\<close>

definition isEmailChar :: "char \<Rightarrow> bool" where
  "isEmailChar c =
     (c \<notin> set [CHR 0x09, CHR 0x0A, CHR 0x0B, CHR 0x0C, CHR 0x0D, CHR 0x20, CHR 0xA0,
                 CHR ''@''])"

text \<open>\<open>[^\s@]+\<close> against a whole piece of the string.\<close>

definition matchEmailPart :: "string \<Rightarrow> bool" where
  "matchEmailPart s = (s \<noteq> [] \<and> list_all isEmailChar s)"

text \<open>\<open>/^[^\s@]+@[^\s@]+\.[^\s@]+$/\<close>: the string splits, with the at sign at index
  \<open>i\<close> and a dot at a later index \<open>j\<close>, into three pieces that each match
  \<open>[^\s@]+\<close>.\<close>

definition isEmail :: "string \<Rightarrow> bool" where
  "isEmail identifier =
     list_ex (\<lambda>i. list_ex (\<lambda>j.
         i < j
         \<and> matchEmailPart (take i identifier)
         \<and> identifier ! i = CHR ''@''
         \<and> matchEmailPart (take (j - Suc i) (drop (Suc i) identifier))
         \<and> identifier ! j = CHR ''.''
         \<and> matchEmailPart (drop (Suc j) identifier))
       [0..<length identifier]) [0..<length identifier]"

subsection \<open>Data\<close>

text \<open>\<open>User\<close> (the fields of \<open>UserSchema\<close> that the service reads, and \<open>active\<close>);
  an optional field is an \<open>option\<close>.\<close>

record user =
  accountId :: string
  emailAddress :: "string option"
  displayName :: "string option"
  name :: "string option"
  active :: "bool option"

text \<open>\<open>GroupUserPickerResponse\<close>: the optional \<open>users\<close> object holds the array
  \<open>users\<close> and \<open>total\<close>; the \<open>groups\<close> object is never read.\<close>

record picker_users =
  users :: "user list"
  total :: nat

record GroupUserPickerResponse =
  users_object :: "picker_users option"

record credentials =
  siteName :: string
  userEmail :: string
  apiToken :: string

datatype error = AuthMissing | FetchFailed string

text \<open>One entry of the cache's \<open>Map\<close>: \<open>{ accountId, timestamp }\<close>.\<close>

record cache_entry =
  entryAccountId :: string
  timestamp :: int

datatype strategy = Picker | Directory

type_synonym request = "credentials \<times> string"
type_synonym invocation = "strategy \<times> string \<times> user list option"

text \<open>The state a call can read and change: the cache's map, the value of
  \<open>Date.now()\<close> in milliseconds, the calls of \<open>fetchAtlassian\<close> made so far and, as a
  record for the theorems only, the calls of the two search functions with the
  query and the value each returned.\<close>

record world =
  cache :: "string \<rightharpoonup> cache_entry"
  now :: int
  transport_log :: "request list"
  strategy_log :: "invocation list"

text \<open>The collaborators of \<open>utils/transport.util\<close>. \<open>fetchAtlassian<T>\<close> is generic;
  \<open>fetchPicker\<close> and \<open>fetchUsers\<close> are its instances at
  \<open>GroupUserPickerResponse\<close> and \<open>User[]\<close>. Each sees the transport calls made
  before it, so a reply may change from one call to the next, and answers with the
  time the call took and either a rejection or the parsed body.\<close>

record env =
  getAtlassianCredentials :: "credentials option"
  fetchPicker :: "request list \<Rightarrow> credentials \<Rightarrow> string
                   \<Rightarrow> int \<times> (error + GroupUserPickerResponse)"
  fetchUsers :: "request list \<Rightarrow> credentials \<Rightarrow> string \<Rightarrow> int \<times> (error + user list)"

subsection \<open>UserCache\<close>

definition TTL :: int where
  "TTL = 1000 * 60 * 60"

definition UserCache_get :: "world \<Rightarrow> string \<Rightarrow> string option \<times> world" where
  "UserCache_get w identifier =
     (case cache w (toLowerCase identifier) of
        None \<Rightarrow> (None, w)
      | Some cached \<Rightarrow>
          if now w - timestamp cached < TTL then (Some (entryAccountId cached), w)
          else (None, w\<lparr>cache := (cache w)(toLowerCase identifier := None)\<rparr>))"

definition UserCache_set :: "world \<Rightarrow> string \<Rightarrow> string \<Rightarrow> world" where
  "UserCache_set w identifier aid =
     w\<lparr>cache := (cache w)(toLowerCase identifier \<mapsto>
          \<lparr>entryAccountId = aid, timestamp = now w\<rparr>)\<rparr>"

definition UserCache_clear :: "world \<Rightarrow> world" where
  "UserCache_clear w = w\<lparr>cache := Map.empty\<rparr>"

subsection \<open>Search functions\<close>

text \<open>The body of the \<open>try\<close> block of \<open>searchUsersWithPicker\<close>: it throws when
  there are no credentials or when the transport rejects; \<open>response.users?.users ||
  null\<close> is the array when the \<open>users\<close> object is there and \<open>null\<close> otherwise.\<close>

definition pickerPath :: "string \<Rightarrow> string" where
  "pickerPath query =
     ''/rest/api/3/groupuserpicker?query='' @ encodeURIComponent query
       @ ''&maxResults=10&showAvatar=false''"

definition searchPath :: "string \<Rightarrow> string" where
  "searchPath query =
     ''/rest/api/3/user/search?query='' @ encodeURIComponent query @ ''&maxResults=10''"

definition awaitFetch :: "world \<Rightarrow> credentials \<Rightarrow> string \<Rightarrow> int \<Rightarrow> world" where
  "awaitFetch w c requestPath elapsed =
     w\<lparr>now := now w + elapsed, transport_log := transport_log w @ [(c, requestPath)]\<rparr>"

definition searchUsersWithPicker_try ::
  "env \<Rightarrow> world \<Rightarrow> string \<Rightarrow> (error + user list option) \<times> world" where
  "searchUsersWithPicker_try e w query =
     (case getAtlassianCredentials e of
        None \<Rightarrow> (Inl AuthMissing, w)
      | Some c \<Rightarrow>
          (case fetchPicker e (transport_log w) c (pickerPath query) of
             (elapsed, Inl err) \<Rightarrow> (Inl err, awaitFetch w c (pickerPath query) elapsed)
           | (elapsed, Inr response) \<Rightarrow>
               (Inr (map_option users (users_object response)),
                awaitFetch w c (pickerPath query) elapsed)))"

text \<open>\<open>searchUsersWithPicker\<close>: the \<open>catch\<close> clause logs whatever was thrown and
  returns \<open>null\<close>. The result type keeps a side for a rejected promise.\<close>

definition searchUsersWithPicker ::
  "env \<Rightarrow> world \<Rightarrow> string \<Rightarrow> (error + user list option) \<times> world" where
  "searchUsersWithPicker e w query =
     (case searchUsersWithPicker_try e w query of
        (r, w') \<Rightarrow>
          (let result = (case r of Inl err \<Rightarrow> None | Inr v \<Rightarrow> v)
           in (Inr result,
               w'\<lparr>strategy_log := strategy_log w' @ [(Picker, query, result)]\<rparr>)))"

definition searchUsers_try ::
  "env \<Rightarrow> world \<Rightarrow> string \<Rightarrow> (error + user list option) \<times> world" where
  "searchUsers_try e w query =
     (case getAtlassianCredentials e of
        None \<Rightarrow> (Inl AuthMissing, w)
      | Some c \<Rightarrow>
          (case fetchUsers e (transport_log w) c (searchPath query) of
             (elapsed, Inl err) \<Rightarrow> (Inl err, awaitFetch w c (searchPath query) elapsed)
           | (elapsed, Inr response) \<Rightarrow>
               (Inr (Some response), awaitFetch w c (searchPath query) elapsed)))"

definition searchUsers ::
  "env \<Rightarrow> world \<Rightarrow> string \<Rightarrow> (error + user list option) \<times> world" where
  "searchUsers e w query =
     (case searchUsers_try e w query of
        (r, w') \<Rightarrow>
          (let result = (case r of Inl err \<Rightarrow> None | Inr v \<Rightarrow> v)
           in (Inr result,
               w'\<lparr>strategy_log := strategy_log w' @ [(Directory, query, result)]\<rparr>)))"

subsection \<open>resolveUserIdentifier\<close>

text \<open>\<open>!users || users.length === 0\<close>.\<close>

definition noUsers :: "user list option \<Rightarrow> bool" where
  "noUsers us = (case us of None \<Rightarrow> True | Some l \<Rightarrow> l = [])"

text \<open>The three conditional searches (the statements between the cache check and
  the choice of a user). An awaited promise that rejects ends the function with that
  error.\<close>

definition searchChain ::
  "env \<Rightarrow> world \<Rightarrow> string \<Rightarrow> (error + user list option) \<times> world" where
  "searchChain e w identifier =
     (case (if isEmail identifier then searchUsersWithPicker e w identifier
            else (Inr None, w)) of
        (Inl err, w1) \<Rightarrow> (Inl err, w1)
      | (Inr users1, w1) \<Rightarrow>
          (case (if noUsers users1 then searchUsers e w1 identifier
                 else (Inr users1, w1)) of
             (Inl err, w2) \<Rightarrow> (Inl err, w2)
           | (Inr users2, w2) \<Rightarrow>
               (if noUsers users2 then searchUsersWithPicker e w2 identifier
                else (Inr users2, w2))))"

text \<open>The predicate given to \<open>users.find\<close>; \<open>u.emailAddress?.toLowerCase()\<close> of a
  missing field is \<open>undefined\<close>, which equals no string.\<close>

definition sameIgnoringCase :: "string option \<Rightarrow> string \<Rightarrow> bool" where
  "sameIgnoringCase field identifier =
     (case field of None \<Rightarrow> False | Some v \<Rightarrow> toLowerCase v = toLowerCase identifier)"

definition exactMatch :: "string \<Rightarrow> user \<Rightarrow> bool" where
  "exactMatch identifier u =
     (sameIgnoringCase (emailAddress u) identifier
      \<or> sameIgnoringCase (name u) identifier
      \<or> sameIgnoringCase (displayName u) identifier)"

text \<open>The user taken from a list: the first exact match, else \<open>users[0]\<close>.\<close>

definition chooseUser :: "string \<Rightarrow> user list \<Rightarrow> user option" where
  "chooseUser identifier us =
     (case find (exactMatch identifier) us of
        Some u \<Rightarrow> Some u
      | None \<Rightarrow> (case us of [] \<Rightarrow> None | u # _ \<Rightarrow> Some u))"

definition resolveUserIdentifier ::
  "env \<Rightarrow> world \<Rightarrow> string \<Rightarrow> (error + string option) \<times> world" where
  "resolveUserIdentifier e w identifier =
     (if identifier = [] then (Inr None, w)
      else if isAccountId identifier then (Inr (Some identifier), w)
      else
        (case UserCache_get w identifier of
           (cached, w0) \<Rightarrow>
             if cached \<noteq> None \<and> cached \<noteq> Some [] then (Inr cached, w0)
             else
               (case searchChain e w0 identifier of
                  (Inl err, w3) \<Rightarrow> (Inl err, w3)
                | (Inr None, w3) \<Rightarrow> (Inr None, w3)
                | (Inr (Some us), w3) \<Rightarrow>
                    if us \<noteq> [] then
                      (case chooseUser identifier us of
                         None \<Rightarrow> (Inr None, w3)
                       | Some u \<Rightarrow>
                           if accountId u \<noteq> []
                           then (Inr (Some (accountId u)),
                                 UserCache_set w3 identifier (accountId u))
                           else (Inr None, w3))
                    else (Inr None, w3))))"

definition clearUserCache :: "world \<Rightarrow> world" where
  "clearUserCache w = UserCache_clear w"

subsection \<open>Concrete collaborators and states\<close>

definition testCredentials :: credentials where
  "testCredentials =
     \<lparr>siteName = ''test'', userEmail = ''admin@example.com'', apiToken = ''test-token''\<rparr>"

definition johnDoe :: user where
  "johnDoe =
     \<lparr>accountId = ''557058:user-id-456'', emailAddress = None,
      displayName = Some ''John Doe'', name = Some ''johndoe'', active = Some True\<rparr>"

definition janeRoe :: user where
  "janeRoe =
     \<lparr>accountId = ''557058:user-id-789'', emailAddress = Some ''jane@example.com'',
      displayName = Some ''Jane Roe'', name = Some ''janeroe'', active = Some True\<rparr>"

text \<open>A process that has just started: nothing cached, no call made.\<close>

definition freshWorld :: world where
  "freshWorld = \<lparr>cache = Map.empty, now = 0, transport_log = [], strategy_log = []\<rparr>"

text \<open>A cache holding one entry for \<open>bob\<close> that is exactly one hour old.\<close>

definition staleWorld :: world where
  "staleWorld =
     \<lparr>cache = [''bob'' \<mapsto> \<lparr>entryAccountId = ''557058:old'', timestamp = 0\<rparr>],
      now = 3600000, transport_log = [], strategy_log = []\<rparr>"

text \<open>No credentials configured.\<close>

definition envNoCredentials :: env where
  "envNoCredentials =
     \<lparr>getAtlassianCredentials = None,
      fetchPicker = (\<lambda>_ _ _. (0, Inl (FetchFailed ''unreachable''))),
      fetchUsers = (\<lambda>_ _ _. (0, Inl (FetchFailed ''unreachable'')))\<rparr>"

text \<open>Both endpoints answer every request with an empty list of users.\<close>

definition envNothingFound :: env where
  "envNothingFound =
     \<lparr>getAtlassianCredentials = Some testCredentials,
      fetchPicker = (\<lambda>_ _ _. (5, Inr \<lparr>users_object = Some \<lparr>users = [], total = 0\<rparr>\<rparr>)),
      fetchUsers = (\<lambda>_ _ _. (5, Inr []))\<rparr>"

text \<open>The directory endpoint rejects every request (say, with 403); the picker endpoint
  answers with two users.\<close>

definition envPickerOnly :: env where
  "envPickerOnly =
     \<lparr>getAtlassianCredentials = Some testCredentials,
      fetchPicker = (\<lambda>_ _ _. (5, Inr \<lparr>users_object =
                        Some \<lparr>users = [janeRoe, johnDoe], total = 2\<rparr>\<rparr>)),
      fetchUsers = (\<lambda>_ _ _. (5, Inl (FetchFailed ''403'')))\<rparr>"

text \<open>The picker endpoint answers 200 with a body that has no \<open>users\<close> object.\<close>

definition envPickerWithoutUsers :: env where
  "envPickerWithoutUsers =
     \<lparr>getAtlassianCredentials = Some testCredentials,
      fetchPicker = (\<lambda>_ _ _. (5, Inr \<lparr>users_object = None\<rparr>)),
      fetchUsers = (\<lambda>_ _ _. (5, Inr []))\<rparr>"

section \<open>Properties\<close>

subsection \<open>Facts about the classifier\<close>

lemma matchHex6Colon_iff:
  "matchHex6Colon s \<longleftrightarrow> (\<exists>p rest. s = p @ CHR '':'' # rest \<and> length p = 6 \<and> list_all isHexLower p)"
proof
  assume m: "matchHex6Colon s"
  then obtain c r where d: "drop 6 s = c # r" and h: "list_all isHexLower (take 6 s)" and c: "c = CHR '':''"
    by (auto simp: matchHex6Colon_def split: list.splits)
  from d have len: "6 < length s"
    by (metis drop_all leI list.simps(3) length_drop length_greater_0_conv zero_less_diff list.size(3))
  have "s = take 6 s @ drop 6 s" by simp
  with d c have "s = take 6 s @ CHR '':'' # r" by simp
  moreover from len have "length (take 6 s) = 6" by simp
  ultimately show "\<exists>p rest. s = p @ CHR '':'' # rest \<and> length p = 6 \<and> list_all isHexLower p"
    using h by blast
next
  assume "\<exists>p rest. s = p @ CHR '':'' # rest \<and> length p = 6 \<and> list_all isHexLower p"
  then show "matchHex6Colon s"
    by (auto simp: matchHex6Colon_def)
qed

lemma colon_not_hex: "\<not> isHexLower CHR '':''" "\<not> (isHexLower CHR '':'' \<or> CHR '':'' = CHR ''-'')"
  by (simp_all add: isHexLower_def)

lemma upper_not_hex: "c \<in> set ''ABCDEF'' \<Longrightarrow> \<not> isHexLower c \<and> c \<noteq> CHR ''-''"
  by (auto simp: isHexLower_def)


lemma prefix_upper_not_hex6:
  assumes "CHR '':'' \<notin> set p" and "\<exists>c\<in>set p. c \<in> set ''ABCDEF''"
  shows "\<not> matchHex6Colon (p @ CHR '':'' # rest)"
proof
  assume "matchHex6Colon (p @ CHR '':'' # rest)"
  then obtain q r where eq: "p @ CHR '':'' # rest = q @ CHR '':'' # r"
    and q: "length q = 6" "list_all isHexLower q"
    unfolding matchHex6Colon_iff by blast
  from q(2) have "CHR '':'' \<notin> set q"
    using colon_not_hex(1) by (auto simp: list_all_iff)
  then have "takeWhile (\<lambda>c. c \<noteq> CHR '':'') (q @ CHR '':'' # r) = q"
    by (auto simp: takeWhile_tail)
  moreover from assms(1) have "takeWhile (\<lambda>c. c \<noteq> CHR '':'') (p @ CHR '':'' # rest) = p"
    by (auto simp: takeWhile_tail)
  ultimately have "p = q"
    using eq by simp
  with assms(2) q(2) show False
    using upper_not_hex by (auto simp: list_all_iff)
qed

lemma colon_not_hex36: "CHR '':'' \<in> set s \<Longrightarrow> \<not> matchHexHyphen36 s"
  using colon_not_hex(2) by (auto simp: matchHexHyphen36_def list_all_iff)

lemma upper_not_hex36: "\<exists>c\<in>set s. c \<in> set ''ABCDEF'' \<Longrightarrow> \<not> matchHexHyphen36 s"
  unfolding matchHexHyphen36_def list_all_iff using upper_not_hex by blast

lemma hex36_no_colon6:
  assumes "\<forall>c\<in>set s. isHexLower c \<or> c = CHR ''-'' \<or> c \<in> set ''ABCDEF''"
  shows "\<not> matchHex6Colon s"
proof
  assume "matchHex6Colon s"
  then have "CHR '':'' \<in> set s" unfolding matchHex6Colon_iff by auto
  with assms have "isHexLower CHR '':'' \<or> CHR '':'' = CHR ''-'' \<or> CHR '':'' \<in> set ''ABCDEF''" by blast
  then show False by (simp add: isHexLower_def)
qed

subsection \<open>Facts about the search functions\<close>

lemma awaitFetch_simps:
  "cache (awaitFetch w c p d) = cache w"
  "strategy_log (awaitFetch w c p d) = strategy_log w"
  "transport_log (awaitFetch w c p d) = transport_log w @ [(c, p)]"
  "now (awaitFetch w c p d) = now w + d"
  by (simp_all add: awaitFetch_def)

lemma searchUsersWithPicker_try_effect:
  assumes "searchUsersWithPicker_try e w q = (r, w')"
  shows "cache w' = cache w \<and> strategy_log w' = strategy_log w
     \<and> (\<exists>reqs. transport_log w' = transport_log w @ reqs \<and> length reqs \<le> 1)
     \<and> (getAtlassianCredentials e = None \<longrightarrow> r = Inl AuthMissing \<and> w' = w)"
  using assms
  by (cases "getAtlassianCredentials e")
     (auto simp: searchUsersWithPicker_try_def awaitFetch_simps split: prod.splits sum.splits)

lemma searchUsers_try_effect:
  assumes "searchUsers_try e w q = (r, w')"
  shows "cache w' = cache w \<and> strategy_log w' = strategy_log w
     \<and> (\<exists>reqs. transport_log w' = transport_log w @ reqs \<and> length reqs \<le> 1)
     \<and> (getAtlassianCredentials e = None \<longrightarrow> r = Inl AuthMissing \<and> w' = w)"
  using assms
  by (cases "getAtlassianCredentials e")
     (auto simp: searchUsers_try_def awaitFetch_simps split: prod.splits sum.splits)

lemma searchUsersWithPicker_effect:
  assumes "searchUsersWithPicker e w q = (r, w')"
  shows "\<exists>res reqs. r = Inr res
     \<and> cache w' = cache w \<and> strategy_log w' = strategy_log w @ [(Picker, q, res)]
     \<and> transport_log w' = transport_log w @ reqs \<and> length reqs \<le> 1
     \<and> (getAtlassianCredentials e = None \<longrightarrow> res = None \<and> reqs = [] \<and> now w' = now w)"
proof -
  obtain r1 w1 where t: "searchUsersWithPicker_try e w q = (r1, w1)"
    by (cases "searchUsersWithPicker_try e w q")
  from searchUsersWithPicker_try_effect [OF t] obtain reqs where
    k: "cache w1 = cache w" "strategy_log w1 = strategy_log w"
      "transport_log w1 = transport_log w @ reqs" "length reqs \<le> 1"
      "getAtlassianCredentials e = None \<longrightarrow> r1 = Inl AuthMissing \<and> w1 = w"
    by auto
  from k(3,5) have "getAtlassianCredentials e = None \<longrightarrow> reqs = []" by auto
  with assms t k show ?thesis
    by (auto simp: searchUsersWithPicker_def Let_def)
qed

lemma searchUsers_effect:
  assumes "searchUsers e w q = (r, w')"
  shows "\<exists>res reqs. r = Inr res
     \<and> cache w' = cache w \<and> strategy_log w' = strategy_log w @ [(Directory, q, res)]
     \<and> transport_log w' = transport_log w @ reqs \<and> length reqs \<le> 1
     \<and> (getAtlassianCredentials e = None \<longrightarrow> res = None \<and> reqs = [] \<and> now w' = now w)"
proof -
  obtain r1 w1 where t: "searchUsers_try e w q = (r1, w1)"
    by (cases "searchUsers_try e w q")
  from searchUsers_try_effect [OF t] obtain reqs where
    k: "cache w1 = cache w" "strategy_log w1 = strategy_log w"
      "transport_log w1 = transport_log w @ reqs" "length reqs \<le> 1"
      "getAtlassianCredentials e = None \<longrightarrow> r1 = Inl AuthMissing \<and> w1 = w"
    by auto
  from k(3,5) have "getAtlassianCredentials e = None \<longrightarrow> reqs = []" by auto
  with assms t k show ?thesis
    by (auto simp: searchUsers_def Let_def)
qed

lemma searchChain_effect:
  assumes "searchChain e w i = (r, w')"
  shows "\<exists>res tr reqs. r = Inr res \<and> cache w' = cache w
     \<and> strategy_log w' = strategy_log w @ tr
     \<and> transport_log w' = transport_log w @ reqs \<and> length reqs \<le> length tr
     \<and> (getAtlassianCredentials e = None \<longrightarrow>
           res = None \<and> reqs = [] \<and> now w' = now w \<and> (\<forall>x\<in>set tr. snd (snd x) = None))
     \<and> (if isEmail i
         then (tr = [(Picker, i, res)] \<and> \<not> noUsers res)
            \<or> (\<exists>r1. tr = [(Picker, i, r1), (Directory, i, res)] \<and> noUsers r1 \<and> \<not> noUsers res)
            \<or> (\<exists>r1 r2. tr = [(Picker, i, r1), (Directory, i, r2), (Picker, i, res)]
                  \<and> noUsers r1 \<and> noUsers r2)
         else (tr = [(Directory, i, res)] \<and> \<not> noUsers res)
            \<or> (\<exists>r2. tr = [(Directory, i, r2), (Picker, i, res)] \<and> noUsers r2))"
proof -
  text \<open>the directory search and the final picker search, from any world\<close>
  have tail: "\<exists>res tr reqs. r = Inr res \<and> cache w' = cache v
       \<and> strategy_log w' = strategy_log v @ tr
       \<and> transport_log w' = transport_log v @ reqs \<and> length reqs \<le> length tr
       \<and> (getAtlassianCredentials e = None \<longrightarrow>
             res = None \<and> reqs = [] \<and> now w' = now v \<and> (\<forall>x\<in>set tr. snd (snd x) = None))
       \<and> ((tr = [(Directory, i, res)] \<and> \<not> noUsers res)
            \<or> (\<exists>r2. tr = [(Directory, i, r2), (Picker, i, res)] \<and> noUsers r2))"
    if run: "(case searchUsers e v i of
                (Inl err, w2) \<Rightarrow> (Inl err, w2)
              | (Inr users2, w2) \<Rightarrow>
                  (if noUsers users2 then searchUsersWithPicker e w2 i
                   else (Inr users2, w2))) = (r, w')" for v
  proof -
    obtain rb wb where d: "searchUsers e v i = (rb, wb)"
      by (cases "searchUsers e v i")
    from searchUsers_effect [OF d] obtain r2 q2 where
      b: "rb = Inr r2" "cache wb = cache v"
        "strategy_log wb = strategy_log v @ [(Directory, i, r2)]"
        "transport_log wb = transport_log v @ q2" "length q2 \<le> 1"
        "getAtlassianCredentials e = None \<longrightarrow> r2 = None \<and> q2 = [] \<and> now wb = now v"
      by auto
    show ?thesis
    proof (cases "noUsers r2")
      case False
      with run d b have "r = Inr r2" "w' = wb" by auto
      with b False show ?thesis by (auto simp: noUsers_def)
    next
      case True
      with run d b have p: "searchUsersWithPicker e wb i = (r, w')" by auto
      from searchUsersWithPicker_effect [OF p] obtain r3 q3 where
        c: "r = Inr r3" "cache w' = cache wb"
          "strategy_log w' = strategy_log wb @ [(Picker, i, r3)]"
          "transport_log w' = transport_log wb @ q3" "length q3 \<le> 1"
          "getAtlassianCredentials e = None \<longrightarrow> r3 = None \<and> q3 = [] \<and> now w' = now wb"
        by auto
      with b True show ?thesis by auto
    qed
  qed
  show ?thesis
  proof (cases "isEmail i")
    case False
    with assms have "(case searchUsers e w i of
                (Inl err, w2) \<Rightarrow> (Inl err, w2)
              | (Inr users2, w2) \<Rightarrow>
                  (if noUsers users2 then searchUsersWithPicker e w2 i
                   else (Inr users2, w2))) = (r, w')"
      by (simp add: searchChain_def noUsers_def)
    from tail [OF this] False show ?thesis by simp
  next
    case True
    obtain ra wa where p1: "searchUsersWithPicker e w i = (ra, wa)"
      by (cases "searchUsersWithPicker e w i")
    from searchUsersWithPicker_effect [OF p1] obtain r1 q1 where
      a: "ra = Inr r1" "cache wa = cache w"
        "strategy_log wa = strategy_log w @ [(Picker, i, r1)]"
        "transport_log wa = transport_log w @ q1" "length q1 \<le> 1"
        "getAtlassianCredentials e = None \<longrightarrow> r1 = None \<and> q1 = [] \<and> now wa = now w"
      by auto
    show ?thesis
    proof (cases "noUsers r1")
      case False
      with assms True p1 a have "r = Inr r1" "w' = wa"
        by (auto simp: searchChain_def)
      with a False True show ?thesis by (auto simp: noUsers_def)
    next
      case n1: True
      with assms True p1 a have "(case searchUsers e wa i of
                (Inl err, w2) \<Rightarrow> (Inl err, w2)
              | (Inr users2, w2) \<Rightarrow>
                  (if noUsers users2 then searchUsersWithPicker e w2 i
                   else (Inr users2, w2))) = (r, w')"
        by (simp add: searchChain_def)
      from tail [OF this] obtain res tr reqs where
        t: "r = Inr res" "cache w' = cache wa" "strategy_log w' = strategy_log wa @ tr"
          "transport_log w' = transport_log wa @ reqs" "length reqs \<le> length tr"
          "getAtlassianCredentials e = None \<longrightarrow>
             res = None \<and> reqs = [] \<and> now w' = now wa \<and> (\<forall>x\<in>set tr. snd (snd x) = None)"
          "(tr = [(Directory, i, res)] \<and> \<not> noUsers res)
            \<or> (\<exists>r2. tr = [(Directory, i, r2), (Picker, i, res)] \<and> noUsers r2)"
        by auto
      with a n1 True show ?thesis by auto
    qed
  qed
qed

subsection \<open>The shapes isAccountId accepts\<close>

text \<open>
  C2 (as the code has it). \<open>isAccountId\<close> is true for every string that starts with
  exactly six characters of \<open>[0-9a-f]\<close> followed by a colon, and for every string of
  36 characters of \<open>[0-9a-f-]\<close>; it is false for \<open>johndoe\<close>, \<open>John Doe\<close> and the
  empty string.
\<close>

theorem isAccountId_shapes:
  "(length p = 6 \<and> list_all isHexLower p \<longrightarrow> isAccountId (p @ CHR '':'' # rest))
   \<and> (length s = 36 \<and> list_all (\<lambda>c. isHexLower c \<or> c = CHR ''-'') s \<longrightarrow> isAccountId s)
   \<and> \<not> isAccountId ''johndoe'' \<and> \<not> isAccountId ''John Doe'' \<and> \<not> isAccountId ''''"
proof -
  have a: "length p = 6 \<and> list_all isHexLower p \<longrightarrow> isAccountId (p @ CHR '':'' # rest)"
    unfolding isAccountId_def matchHex6Colon_iff by blast
  have b: "length s = 36 \<and> list_all (\<lambda>c. isHexLower c \<or> c = CHR ''-'') s \<longrightarrow> isAccountId s"
    by (simp add: isAccountId_def matchHexHyphen36_def)
  have c: "\<not> isAccountId ''johndoe''" "\<not> isAccountId ''John Doe''" "\<not> isAccountId ''''"
    by (simp_all add: isAccountId_def matchHexHyphen36_def matchHex6Colon_def isHexLower_def)
  from a b c show ?thesis by blast
qed

theorem isAccountId_shapes_witness:
  "isAccountId ''557058:user-id-123'' \<and> isAccountId ''12345678-1234-1234-1234-123456789abc''"
  using isAccountId_shapes [of "''557058''" "''user-id-123''" "''12345678-1234-1234-1234-123456789abc''"]
  by (simp add: isHexLower_def)

text \<open>
  A prefix of one hexadecimal character and a colon has the shape the specification
  names, and \<open>isAccountId\<close> rejects it: the code asks for six.
\<close>

theorem isAccountId_short_prefix_counterexample:
  "spec_matchHex1to8Colon ''5:abc'' \<and> \<not> isAccountId ''5:abc''"
  by code_simp

subsection \<open>Facts about the cache and the resolver\<close>

lemma UserCache_get_None:
  "cache w (toLowerCase i) = None \<Longrightarrow> UserCache_get w i = (None, w)"
  by (simp add: UserCache_get_def)

lemma UserCache_get_fresh:
  "cache w (toLowerCase i) = Some en \<Longrightarrow> now w - timestamp en < TTL
     \<Longrightarrow> UserCache_get w i = (Some (entryAccountId en), w)"
  by (simp add: UserCache_get_def)

lemma UserCache_get_expired:
  "cache w (toLowerCase i) = Some en \<Longrightarrow> TTL \<le> now w - timestamp en
     \<Longrightarrow> UserCache_get w i = (None, w\<lparr>cache := (cache w)(toLowerCase i := None)\<rparr>)"
  by (simp add: UserCache_get_def)

lemma UserCache_get_logs:
  "now (snd (UserCache_get w i)) = now w
   \<and> transport_log (snd (UserCache_get w i)) = transport_log w
   \<and> strategy_log (snd (UserCache_get w i)) = strategy_log w"
  by (simp add: UserCache_get_def split: option.splits)

lemma UserCache_get_other_keys:
  "k \<noteq> toLowerCase i \<Longrightarrow> cache (snd (UserCache_get w i)) k = cache w k"
  by (simp add: UserCache_get_def split: option.splits)

lemma UserCache_get_key:
  "cache (snd (UserCache_get w i)) (toLowerCase i) = cache w (toLowerCase i)
   \<or> (cache (snd (UserCache_get w i)) (toLowerCase i) = None
      \<and> (\<exists>en. cache w (toLowerCase i) = Some en \<and> TTL \<le> now w - timestamp en))"
  by (simp add: UserCache_get_def split: option.splits)

lemma UserCache_get_hit:
  assumes "fst (UserCache_get w i) = Some c"
  shows "snd (UserCache_get w i) = w
     \<and> (\<exists>en. cache w (toLowerCase i) = Some en \<and> entryAccountId en = c
           \<and> now w - timestamp en < TTL)"
  using assms by (auto simp: UserCache_get_def split: option.splits if_splits)

lemma UserCache_set_simps:
  "cache (UserCache_set w i a) =
     (cache w)(toLowerCase i \<mapsto> \<lparr>entryAccountId = a, timestamp = now w\<rparr>)"
  "now (UserCache_set w i a) = now w"
  "transport_log (UserCache_set w i a) = transport_log w"
  "strategy_log (UserCache_set w i a) = strategy_log w"
  by (simp_all add: UserCache_set_def)

lemma chooseUser_Nil: "chooseUser i [] = None"
  by (simp add: chooseUser_def)

lemma chooseUser_Some:
  assumes "us \<noteq> []"
  shows "\<exists>u. chooseUser i us = Some u \<and> u \<in> set us
     \<and> ((\<exists>m\<in>set us. exactMatch i m) \<longrightarrow> exactMatch i u)
     \<and> ((\<forall>m\<in>set us. \<not> exactMatch i m) \<longrightarrow> u = us ! 0)"
proof (cases "find (exactMatch i) us")
  case None
  then have "\<forall>m\<in>set us. \<not> exactMatch i m"
    by (simp add: find_None_iff)
  with None assms show ?thesis
    by (cases us) (auto simp: chooseUser_def)
next
  case (Some u)
  then have "u \<in> set us \<and> exactMatch i u"
    by (auto simp: find_Some_iff)
  with Some show ?thesis
    by (auto simp: chooseUser_def)
qed

text \<open>What the resolver does with the list the searches end with.\<close>

lemma resolve_after_search:
  assumes "i \<noteq> []" "\<not> isAccountId i"
    and "fst (UserCache_get w i) = None \<or> fst (UserCache_get w i) = Some []"
    and "searchChain e (snd (UserCache_get w i)) i = (Inr res, w3)"
  shows "resolveUserIdentifier e w i =
     (case res of
        None \<Rightarrow> (Inr None, w3)
      | Some us \<Rightarrow>
          (case chooseUser i us of
             None \<Rightarrow> (Inr None, w3)
           | Some u \<Rightarrow>
               if accountId u \<noteq> []
               then (Inr (Some (accountId u)), UserCache_set w3 i (accountId u))
               else (Inr None, w3)))"
proof -
  obtain c w0 where g: "UserCache_get w i = (c, w0)"
    by (cases "UserCache_get w i")
  with assms(3) have c: "\<not> (c \<noteq> None \<and> c \<noteq> Some [])" by auto
  from g assms(4) have s: "searchChain e w0 i = (Inr res, w3)" by simp
  show ?thesis
  proof (cases res)
    case None
    with assms(1,2) g c s show ?thesis
      by (auto simp: resolveUserIdentifier_def)
  next
    case (Some us)
    with assms(1,2) g c s show ?thesis
      by (cases "us = []") (auto simp: resolveUserIdentifier_def chooseUser_Nil)
  qed
qed

text \<open>The four ways a call of the resolver can go.\<close>

lemma resolve_cases:
  obtains (empty) "i = []" "resolveUserIdentifier e w i = (Inr None, w)"
  | (canonical) "i \<noteq> []" "isAccountId i" "resolveUserIdentifier e w i = (Inr (Some i), w)"
  | (hit) c where "i \<noteq> []" "\<not> isAccountId i" "UserCache_get w i = (Some c, w)" "c \<noteq> []"
      "resolveUserIdentifier e w i = (Inr (Some c), w)"
  | (search) res w3 where "i \<noteq> []" "\<not> isAccountId i"
      "fst (UserCache_get w i) = None \<or> fst (UserCache_get w i) = Some []"
      "searchChain e (snd (UserCache_get w i)) i = (Inr res, w3)"
proof (cases "i = []")
  case True
  then show ?thesis using empty by (simp add: resolveUserIdentifier_def)
next
  case ne: False
  show ?thesis
  proof (cases "isAccountId i")
    case True
    with ne show ?thesis using canonical by (simp add: resolveUserIdentifier_def)
  next
    case na: False
    show ?thesis
    proof (cases "fst (UserCache_get w i) = None \<or> fst (UserCache_get w i) = Some []")
      case True
      obtain r w3 where s: "searchChain e (snd (UserCache_get w i)) i = (r, w3)"
        by (cases "searchChain e (snd (UserCache_get w i)) i")
      from searchChain_effect [OF s] obtain res where "r = Inr res" by auto
      with s ne na True show ?thesis using search by blast
    next
      case False
      then obtain c where c: "fst (UserCache_get w i) = Some c" "c \<noteq> []"
        by (cases "fst (UserCache_get w i)") auto
      from UserCache_get_hit [OF c(1)] c(1) have g: "UserCache_get w i = (Some c, w)"
        by (cases "UserCache_get w i") auto
      with c(2) ne na have "resolveUserIdentifier e w i = (Inr (Some c), w)"
        by (simp add: resolveUserIdentifier_def)
      with ne na g c(2) show ?thesis using hit by blast
    qed
  qed
qed

text \<open>Everything the later theorems use about a call that reaches the searches: the
  searches that ran, in order and with what each returned, and the value returned.\<close>

lemma resolve_search_summary:
  assumes "i \<noteq> []" "\<not> isAccountId i"
    and "fst (UserCache_get w i) = None \<or> fst (UserCache_get w i) = Some []"
  shows "\<exists>res tr reqs w3.
       searchChain e (snd (UserCache_get w i)) i = (Inr res, w3)
     \<and> cache w3 = cache (snd (UserCache_get w i))
     \<and> strategy_log (snd (resolveUserIdentifier e w i)) = strategy_log w @ tr
     \<and> transport_log (snd (resolveUserIdentifier e w i)) = transport_log w @ reqs
     \<and> length reqs \<le> length tr
     \<and> now (snd (resolveUserIdentifier e w i)) = now w3
     \<and> (getAtlassianCredentials e = None \<longrightarrow>
           res = None \<and> reqs = [] \<and> now w3 = now w \<and> (\<forall>x\<in>set tr. snd (snd x) = None))
     \<and> (if isEmail i
         then (tr = [(Picker, i, res)] \<and> \<not> noUsers res)
            \<or> (\<exists>r1. tr = [(Picker, i, r1), (Directory, i, res)] \<and> noUsers r1 \<and> \<not> noUsers res)
            \<or> (\<exists>r1 r2. tr = [(Picker, i, r1), (Directory, i, r2), (Picker, i, res)]
                  \<and> noUsers r1 \<and> noUsers r2)
         else (tr = [(Directory, i, res)] \<and> \<not> noUsers res)
            \<or> (\<exists>r2. tr = [(Directory, i, r2), (Picker, i, res)] \<and> noUsers r2))
     \<and> resolveUserIdentifier e w i =
          (case res of
             None \<Rightarrow> (Inr None, w3)
           | Some us \<Rightarrow>
               (case chooseUser i us of
                  None \<Rightarrow> (Inr None, w3)
                | Some u \<Rightarrow>
                    if accountId u \<noteq> []
                    then (Inr (Some (accountId u)), UserCache_set w3 i (accountId u))
                    else (Inr None, w3)))"
proof -
  obtain r w3 where s: "searchChain e (snd (UserCache_get w i)) i = (r, w3)"
    by (cases "searchChain e (snd (UserCache_get w i)) i")
  from searchChain_effect [OF s] obtain res tr reqs where
    k: "r = Inr res" "cache w3 = cache (snd (UserCache_get w i))"
      "strategy_log w3 = strategy_log (snd (UserCache_get w i)) @ tr"
      "transport_log w3 = transport_log (snd (UserCache_get w i)) @ reqs"
      "length reqs \<le> length tr"
      "getAtlassianCredentials e = None \<longrightarrow>
         res = None \<and> reqs = [] \<and> now w3 = now (snd (UserCache_get w i))
         \<and> (\<forall>x\<in>set tr. snd (snd x) = None)"
      "if isEmail i
         then (tr = [(Picker, i, res)] \<and> \<not> noUsers res)
            \<or> (\<exists>r1. tr = [(Picker, i, r1), (Directory, i, res)] \<and> noUsers r1 \<and> \<not> noUsers res)
            \<or> (\<exists>r1 r2. tr = [(Picker, i, r1), (Directory, i, r2), (Picker, i, res)]
                  \<and> noUsers r1 \<and> noUsers r2)
         else (tr = [(Directory, i, res)] \<and> \<not> noUsers res)
            \<or> (\<exists>r2. tr = [(Directory, i, r2), (Picker, i, res)] \<and> noUsers r2)"
    by (elim exE conjE) (rule that)
  from s k(1) have s': "searchChain e (snd (UserCache_get w i)) i = (Inr res, w3)"
    by simp
  note eq = resolve_after_search [OF assms s']
  have logs: "strategy_log (snd (resolveUserIdentifier e w i)) = strategy_log w3
     \<and> transport_log (snd (resolveUserIdentifier e w i)) = transport_log w3
     \<and> now (snd (resolveUserIdentifier e w i)) = now w3"
    unfolding eq by (simp add: UserCache_set_simps split: option.splits)
  from logs k(3,4) have l1: "strategy_log (snd (resolveUserIdentifier e w i)) = strategy_log w @ tr"
    and l2: "transport_log (snd (resolveUserIdentifier e w i)) = transport_log w @ reqs"
    and l3: "now (snd (resolveUserIdentifier e w i)) = now w3"
    by (simp_all add: UserCache_get_logs)
  from k(6) have c: "getAtlassianCredentials e = None \<longrightarrow>
           res = None \<and> reqs = [] \<and> now w3 = now w \<and> (\<forall>x\<in>set tr. snd (snd x) = None)"
    by (simp add: UserCache_get_logs)
  show ?thesis
    apply (rule exI [of _ res], rule exI [of _ tr], rule exI [of _ reqs], rule exI [of _ w3])
    using s' k(2) l1 l2 k(5) l3 c k(7) eq by (intro conjI) assumption+
qed

subsection \<open>Reading the cache\<close>

lemma toLowerCase_Bob: "toLowerCase ''Bob'' = ''bob''"
  by code_simp

text \<open>
  C7. \<open>UserCache.get\<close> looks the identifier up under its lower-cased form, so two
  identifiers with the same lower-cased form read the same entry. With no entry it
  returns \<open>null\<close> and changes nothing; with an entry younger than 3600000 ms it
  returns the stored account id and changes nothing; with an entry of that age or
  older it returns \<open>null\<close> and deletes that entry, nothing else. An entry stored by
  \<open>set\<close> is therefore read back for \<open>d < 3600000\<close> ms and purged by the first
  read after that.
\<close>

theorem UserCache_get_ttl:
  "(toLowerCase identifier' = toLowerCase identifier \<longrightarrow>
      UserCache_get w identifier' = UserCache_get w identifier)
   \<and> (cache w (toLowerCase identifier) = None \<longrightarrow> UserCache_get w identifier = (None, w))
   \<and> (\<forall>en. cache w (toLowerCase identifier) = Some en \<and> now w - timestamp en < 3600000 \<longrightarrow>
         UserCache_get w identifier = (Some (entryAccountId en), w))
   \<and> (\<forall>en. cache w (toLowerCase identifier) = Some en \<and> 3600000 \<le> now w - timestamp en \<longrightarrow>
         UserCache_get w identifier =
           (None, w\<lparr>cache := (cache w)(toLowerCase identifier := None)\<rparr>)
         \<and> cache (snd (UserCache_get w identifier)) (toLowerCase identifier) = None)
   \<and> UserCache_get ((UserCache_set w identifier a)\<lparr>now := now w + d\<rparr>) identifier =
        (if d < 3600000
         then (Some a, (UserCache_set w identifier a)\<lparr>now := now w + d\<rparr>)
         else (None, (UserCache_set w identifier a)
                 \<lparr>now := now w + d, cache := (cache w)(toLowerCase identifier := None)\<rparr>))"
proof -
  have ttl: "TTL = 3600000" by (simp add: TTL_def)
  have k: "toLowerCase identifier' = toLowerCase identifier \<longrightarrow>
      UserCache_get w identifier' = UserCache_get w identifier"
    by (auto simp: UserCache_get_def split: option.splits)
  have n: "cache w (toLowerCase identifier) = None \<longrightarrow> UserCache_get w identifier = (None, w)"
    by (simp add: UserCache_get_None)
  have f: "\<forall>en. cache w (toLowerCase identifier) = Some en \<and> now w - timestamp en < 3600000 \<longrightarrow>
         UserCache_get w identifier = (Some (entryAccountId en), w)"
    using UserCache_get_fresh [of w "identifier"] by (simp add: ttl)
  have x: "\<forall>en. cache w (toLowerCase identifier) = Some en \<and> 3600000 \<le> now w - timestamp en \<longrightarrow>
         UserCache_get w identifier =
           (None, w\<lparr>cache := (cache w)(toLowerCase identifier := None)\<rparr>)
         \<and> cache (snd (UserCache_get w identifier)) (toLowerCase identifier) = None"
    using UserCache_get_expired [of w "identifier"] by (simp add: ttl)
  have s: "UserCache_get ((UserCache_set w identifier a)\<lparr>now := now w + d\<rparr>) identifier =
        (if d < 3600000
         then (Some a, (UserCache_set w identifier a)\<lparr>now := now w + d\<rparr>)
         else (None, (UserCache_set w identifier a)
                 \<lparr>now := now w + d, cache := (cache w)(toLowerCase identifier := None)\<rparr>))"
    by (simp add: UserCache_get_def UserCache_set_def ttl)
  from k n f x s show ?thesis by (intro conjI)
qed

theorem UserCache_get_ttl_witness:
  "UserCache_get staleWorld ''Bob'' = (None, staleWorld\<lparr>cache := Map.empty\<rparr>)
   \<and> UserCache_get (staleWorld\<lparr>now := 3599999\<rparr>) ''Bob''
       = (Some ''557058:old'', staleWorld\<lparr>now := 3599999\<rparr>)
   \<and> UserCache_get freshWorld ''Bob'' = (None, freshWorld)"
proof -
  let ?en = "\<lparr>entryAccountId = ''557058:old'', timestamp = 0\<rparr>"
  have a: "cache staleWorld (toLowerCase ''Bob'') = Some ?en \<and> 3600000 \<le> now staleWorld - timestamp ?en"
    by (simp add: staleWorld_def toLowerCase_Bob)
  have b: "cache (staleWorld\<lparr>now := 3599999\<rparr>) (toLowerCase ''Bob'') = Some ?en
      \<and> now (staleWorld\<lparr>now := 3599999\<rparr>) - timestamp ?en < 3600000"
    by (simp add: staleWorld_def toLowerCase_Bob)
  have c: "cache freshWorld (toLowerCase ''Bob'') = None"
    by (simp add: freshWorld_def)
  have d: "(cache staleWorld)(toLowerCase ''Bob'' := None) = Map.empty"
    by (simp add: staleWorld_def toLowerCase_Bob)
  from a UserCache_get_ttl [of "''Bob''" "''Bob''" staleWorld]
  have "UserCache_get staleWorld ''Bob'' = (None, staleWorld\<lparr>cache := Map.empty\<rparr>)"
    unfolding d by blast
  moreover from b UserCache_get_ttl [of "''Bob''" "''Bob''" "staleWorld\<lparr>now := 3599999\<rparr>"]
  have "UserCache_get (staleWorld\<lparr>now := 3599999\<rparr>) ''Bob''
       = (Some ''557058:old'', staleWorld\<lparr>now := 3599999\<rparr>)"
    by fastforce
  moreover from c UserCache_get_ttl [of "''Bob''" "''Bob''" freshWorld]
  have "UserCache_get freshWorld ''Bob'' = (None, freshWorld)"
    by blast
  ultimately show ?thesis by blast
qed

subsection \<open>Upper-case hexadecimal letters\<close>

text \<open>
  C10. \<open>isAccountId\<close> is false for every string whose prefix before the first colon
  contains one of the letters A-F, and for every 36-character string of hexadecimal
  digits and hyphens that contains one of them. Such an identifier is not returned
  unchanged: the resolver reads the cache and, unless a valid entry is found there,
  calls a search function with it (the picker search when it is email-shaped, the
  directory search otherwise).
\<close>

theorem uppercase_hex_is_not_canonical:
  assumes "(\<exists>p rest. identifier = p @ CHR '':'' # rest \<and> CHR '':'' \<notin> set p
              \<and> (\<exists>c\<in>set p. c \<in> set ''ABCDEF''))
         \<or> (length identifier = 36
              \<and> (\<forall>c\<in>set identifier. isHexLower c \<or> c = CHR ''-'' \<or> c \<in> set ''ABCDEF'')
              \<and> (\<exists>c\<in>set identifier. c \<in> set ''ABCDEF''))"
  shows "\<not> isAccountId identifier
     \<and> (\<forall>c. fst (UserCache_get w identifier) = Some c \<and> c \<noteq> [] \<longrightarrow>
           resolveUserIdentifier e w identifier = (Inr (Some c), w))
     \<and> (fst (UserCache_get w identifier) = None \<or> fst (UserCache_get w identifier) = Some [] \<longrightarrow>
           (\<exists>r tr. strategy_log (snd (resolveUserIdentifier e w identifier)) =
              strategy_log w
                @ ((if isEmail identifier then Picker else Directory), identifier, r) # tr))"
proof -
  from assms have na: "\<not> isAccountId identifier"
  proof
    assume "\<exists>p rest. identifier = p @ CHR '':'' # rest \<and> CHR '':'' \<notin> set p
              \<and> (\<exists>c\<in>set p. c \<in> set ''ABCDEF'')"
    then obtain p rest where i: "identifier = p @ CHR '':'' # rest"
      and p: "CHR '':'' \<notin> set p" "\<exists>c\<in>set p. c \<in> set ''ABCDEF''"
      by blast
    from prefix_upper_not_hex6 [OF p] i have "\<not> matchHex6Colon identifier" by simp
    moreover from i have "\<not> matchHexHyphen36 identifier"
      by (intro colon_not_hex36) simp
    ultimately show ?thesis by (simp add: isAccountId_def)
  next
    assume u: "length identifier = 36
              \<and> (\<forall>c\<in>set identifier. isHexLower c \<or> c = CHR ''-'' \<or> c \<in> set ''ABCDEF'')
              \<and> (\<exists>c\<in>set identifier. c \<in> set ''ABCDEF'')"
    then have "\<not> matchHex6Colon identifier"
      by (intro hex36_no_colon6) blast
    moreover from u have "\<not> matchHexHyphen36 identifier"
      by (intro upper_not_hex36) blast
    ultimately show ?thesis by (simp add: isAccountId_def)
  qed
  from assms have ne: "identifier \<noteq> []" by auto
  have hit: "\<forall>c. fst (UserCache_get w identifier) = Some c \<and> c \<noteq> [] \<longrightarrow>
           resolveUserIdentifier e w identifier = (Inr (Some c), w)"
  proof (intro allI impI)
    fix c assume c: "fst (UserCache_get w identifier) = Some c \<and> c \<noteq> []"
    then have "fst (UserCache_get w identifier) = Some c" by simp
    from this UserCache_get_hit [OF this]
    have "UserCache_get w identifier = (Some c, w)"
      by (cases "UserCache_get w identifier") auto
    with c ne na show "resolveUserIdentifier e w identifier = (Inr (Some c), w)"
      by (simp add: resolveUserIdentifier_def)
  qed
  have miss: "fst (UserCache_get w identifier) = None \<or> fst (UserCache_get w identifier) = Some [] \<longrightarrow>
           (\<exists>r tr. strategy_log (snd (resolveUserIdentifier e w identifier)) =
              strategy_log w
                @ ((if isEmail identifier then Picker else Directory), identifier, r) # tr)"
  proof
    assume m: "fst (UserCache_get w identifier) = None \<or> fst (UserCache_get w identifier) = Some []"
    from resolve_search_summary [OF ne na m, of e]
    show "\<exists>r tr. strategy_log (snd (resolveUserIdentifier e w identifier)) =
              strategy_log w
                @ ((if isEmail identifier then Picker else Directory), identifier, r) # tr"
      by (cases "isEmail identifier") auto
  qed
  from na hit miss show ?thesis by (intro conjI)
qed

theorem uppercase_hex_is_not_canonical_witness:
  "\<not> isAccountId ''5570AB:x'' \<and> isAccountId (toLowerCase ''5570AB:x'')
   \<and> (\<exists>r tr. strategy_log (snd (resolveUserIdentifier envNothingFound freshWorld ''5570AB:x'')) =
          (Directory, ''5570AB:x'', r) # tr)"
proof -
  have "''5570AB:x'' = ''5570AB'' @ CHR '':'' # ''x'' \<and> CHR '':'' \<notin> set ''5570AB''
      \<and> (\<exists>c\<in>set ''5570AB''. c \<in> set ''ABCDEF'')"
    by simp
  then have h: "(\<exists>p rest. ''5570AB:x'' = p @ CHR '':'' # rest \<and> CHR '':'' \<notin> set p
              \<and> (\<exists>c\<in>set p. c \<in> set ''ABCDEF''))
         \<or> (length ''5570AB:x'' = 36
              \<and> (\<forall>c\<in>set ''5570AB:x''. isHexLower c \<or> c = CHR ''-'' \<or> c \<in> set ''ABCDEF'')
              \<and> (\<exists>c\<in>set ''5570AB:x''. c \<in> set ''ABCDEF''))"
    by blast
  have m: "fst (UserCache_get freshWorld ''5570AB:x'') = None"
    by (simp add: UserCache_get_def freshWorld_def)
  have n: "\<not> isEmail ''5570AB:x''" by code_simp
  have l: "strategy_log freshWorld = []" by (simp add: freshWorld_def)
  have c: "isAccountId (toLowerCase ''5570AB:x'')" by code_simp
  from uppercase_hex_is_not_canonical [OF h, of freshWorld envNothingFound] m n l c
  show ?thesis by simp
qed

subsection \<open>When a search function returns null\<close>

text \<open>
  C4 (as the code has it). Without credentials both search functions return \<open>null\<close>.
  With credentials, \<open>searchUsers\<close> returns \<open>null\<close> when the transport rejects and
  the array of the response (empty or not) when it answers; \<open>searchUsersWithPicker\<close>
  returns \<open>null\<close> when the transport rejects and also when the response has no
  \<open>users\<close> object, and the array inside that object (empty or not) when it is
  there.
\<close>

theorem search_null_results:
  "(getAtlassianCredentials e = None \<longrightarrow>
      fst (searchUsers e w q) = Inr None \<and> fst (searchUsersWithPicker e w q) = Inr None)
   \<and> (\<forall>c. getAtlassianCredentials e = Some c \<longrightarrow>
        (\<forall>err. snd (fetchUsers e (transport_log w) c (searchPath q)) = Inl err \<longrightarrow>
               fst (searchUsers e w q) = Inr None)
      \<and> (\<forall>l. snd (fetchUsers e (transport_log w) c (searchPath q)) = Inr l \<longrightarrow>
               fst (searchUsers e w q) = Inr (Some l))
      \<and> (\<forall>err. snd (fetchPicker e (transport_log w) c (pickerPath q)) = Inl err \<longrightarrow>
               fst (searchUsersWithPicker e w q) = Inr None)
      \<and> (\<forall>resp. snd (fetchPicker e (transport_log w) c (pickerPath q)) = Inr resp \<longrightarrow>
               fst (searchUsersWithPicker e w q) =
                 Inr (case users_object resp of None \<Rightarrow> None | Some obj \<Rightarrow> Some (users obj))))"
proof -
  have a: "getAtlassianCredentials e = None \<longrightarrow>
      fst (searchUsers e w q) = Inr None \<and> fst (searchUsersWithPicker e w q) = Inr None"
    by (simp add: searchUsers_def searchUsers_try_def searchUsersWithPicker_def
        searchUsersWithPicker_try_def Let_def)
  have b: "getAtlassianCredentials e = Some c \<longrightarrow>
        (\<forall>err. snd (fetchUsers e (transport_log w) c (searchPath q)) = Inl err \<longrightarrow>
               fst (searchUsers e w q) = Inr None)
      \<and> (\<forall>l. snd (fetchUsers e (transport_log w) c (searchPath q)) = Inr l \<longrightarrow>
               fst (searchUsers e w q) = Inr (Some l))" for c
    by (cases "fetchUsers e (transport_log w) c (searchPath q)")
       (auto simp: searchUsers_def searchUsers_try_def Let_def)
  have c: "getAtlassianCredentials e = Some c \<longrightarrow>
        (\<forall>err. snd (fetchPicker e (transport_log w) c (pickerPath q)) = Inl err \<longrightarrow>
               fst (searchUsersWithPicker e w q) = Inr None)
      \<and> (\<forall>resp. snd (fetchPicker e (transport_log w) c (pickerPath q)) = Inr resp \<longrightarrow>
               fst (searchUsersWithPicker e w q) =
                 Inr (case users_object resp of None \<Rightarrow> None | Some obj \<Rightarrow> Some (users obj)))" for c
    by (cases "fetchPicker e (transport_log w) c (pickerPath q)")
       (auto simp: searchUsersWithPicker_def searchUsersWithPicker_try_def Let_def split: option.splits)
  from a b c show ?thesis by blast
qed

theorem search_null_results_witness:
  "fst (searchUsers envNothingFound freshWorld ''johndoe'') = Inr (Some [])
   \<and> fst (searchUsersWithPicker envNothingFound freshWorld ''johndoe'') = Inr (Some [])
   \<and> fst (searchUsers envPickerOnly freshWorld ''johndoe'') = Inr None
   \<and> fst (searchUsers envNoCredentials freshWorld ''johndoe'') = Inr None"
proof -
  have c: "getAtlassianCredentials envNothingFound = Some testCredentials"
    "getAtlassianCredentials envPickerOnly = Some testCredentials"
    "getAtlassianCredentials envNoCredentials = None"
    by (simp_all add: envNothingFound_def envPickerOnly_def envNoCredentials_def)
  have u: "snd (fetchUsers envNothingFound (transport_log freshWorld) testCredentials
              (searchPath ''johndoe'')) = Inr []"
    by (simp add: envNothingFound_def)
  have p: "snd (fetchPicker envNothingFound (transport_log freshWorld) testCredentials
              (pickerPath ''johndoe'')) = Inr \<lparr>users_object = Some \<lparr>users = [], total = 0\<rparr>\<rparr>"
    by (simp add: envNothingFound_def)
  have f: "snd (fetchUsers envPickerOnly (transport_log freshWorld) testCredentials
              (searchPath ''johndoe'')) = Inl (FetchFailed ''403'')"
    by (simp add: envPickerOnly_def)
  from search_null_results [of envNothingFound freshWorld "''johndoe''"] c(1) u
  have 1: "fst (searchUsers envNothingFound freshWorld ''johndoe'') = Inr (Some [])"
    by blast
  from search_null_results [of envNothingFound freshWorld "''johndoe''"] c(1) p
  have 2: "fst (searchUsersWithPicker envNothingFound freshWorld ''johndoe'') = Inr (Some [])"
    by fastforce
  from search_null_results [of envPickerOnly freshWorld "''johndoe''"] c(2) f
  have 3: "fst (searchUsers envPickerOnly freshWorld ''johndoe'') = Inr None"
    by blast
  from search_null_results [of envNoCredentials freshWorld "''johndoe''"] c(3)
  have 4: "fst (searchUsers envNoCredentials freshWorld ''johndoe'') = Inr None"
    by blast
  from 1 2 3 4 show ?thesis by (intro conjI)
qed

text \<open>
  The picker endpoint answers, with a body that has no \<open>users\<close> object: the
  transport call succeeded and the picker search returns \<open>null\<close>.
\<close>

theorem picker_null_on_success_counterexample:
  "getAtlassianCredentials envPickerWithoutUsers = Some testCredentials
   \<and> snd (fetchPicker envPickerWithoutUsers (transport_log freshWorld) testCredentials
            (pickerPath ''johndoe'')) = Inr \<lparr>users_object = None\<rparr>
   \<and> fst (searchUsersWithPicker envPickerWithoutUsers freshWorld ''johndoe'') = Inr None"
  by (simp add: envPickerWithoutUsers_def searchUsersWithPicker_def
      searchUsersWithPicker_try_def Let_def)

subsection \<open>Missing credentials\<close>

text \<open>No call of the resolver ends with an error: each search function catches
  what its body throws.\<close>

lemma resolveUserIdentifier_returns:
  "\<exists>v. fst (resolveUserIdentifier e w i) = Inr v"
proof (cases rule: resolve_cases [of i e w])
  case (search res w3)
  from resolve_after_search [OF search] show ?thesis
    by (simp split: option.splits)
qed simp_all

text \<open>
  C1 (as the code has it). When no credentials are configured, every search function
  called by the resolver catches the missing-credentials error, makes no transport
  call and returns \<open>null\<close>; for a non-empty, non-canonical identifier with no
  valid cache entry the resolver runs all its searches this way and returns
  \<open>null\<close>. No error leaves the resolver, and nothing is written to the cache.
\<close>

theorem missing_credentials_resolve_to_null:
  assumes "getAtlassianCredentials e = None"
    and "identifier \<noteq> []" and "\<not> isAccountId identifier"
    and "fst (UserCache_get w identifier) = None \<or> fst (UserCache_get w identifier) = Some []"
  shows "fst (resolveUserIdentifier e w identifier) = Inr None
     \<and> transport_log (snd (resolveUserIdentifier e w identifier)) = transport_log w
     \<and> cache (snd (resolveUserIdentifier e w identifier)) = cache (snd (UserCache_get w identifier))
     \<and> strategy_log (snd (resolveUserIdentifier e w identifier)) =
         strategy_log w @
           (if isEmail identifier
            then [(Picker, identifier, None), (Directory, identifier, None),
                  (Picker, identifier, None)]
            else [(Directory, identifier, None), (Picker, identifier, None)])"
proof -
  from resolve_search_summary [OF assms(2-4), of e] obtain res tr reqs w3 where
    k: "cache w3 = cache (snd (UserCache_get w identifier))"
      "strategy_log (snd (resolveUserIdentifier e w identifier)) = strategy_log w @ tr"
      "transport_log (snd (resolveUserIdentifier e w identifier)) = transport_log w @ reqs"
      "getAtlassianCredentials e = None \<longrightarrow>
           res = None \<and> reqs = [] \<and> now w3 = now w \<and> (\<forall>x\<in>set tr. snd (snd x) = None)"
      "if isEmail identifier
         then (tr = [(Picker, identifier, res)] \<and> \<not> noUsers res)
            \<or> (\<exists>r1. tr = [(Picker, identifier, r1), (Directory, identifier, res)]
                  \<and> noUsers r1 \<and> \<not> noUsers res)
            \<or> (\<exists>r1 r2. tr = [(Picker, identifier, r1), (Directory, identifier, r2),
                              (Picker, identifier, res)]
                  \<and> noUsers r1 \<and> noUsers r2)
         else (tr = [(Directory, identifier, res)] \<and> \<not> noUsers res)
            \<or> (\<exists>r2. tr = [(Directory, identifier, r2), (Picker, identifier, res)] \<and> noUsers r2)"
      "resolveUserIdentifier e w identifier =
          (case res of
             None \<Rightarrow> (Inr None, w3)
           | Some us \<Rightarrow>
               (case chooseUser identifier us of
                  None \<Rightarrow> (Inr None, w3)
                | Some u \<Rightarrow>
                    if accountId u \<noteq> []
                    then (Inr (Some (accountId u)), UserCache_set w3 identifier (accountId u))
                    else (Inr None, w3)))"
    by (elim exE conjE) (rule that)
  from k(4) assms(1) have n: "res = None" "reqs = []" "\<forall>x\<in>set tr. snd (snd x) = None"
    by simp_all
  from k(6) n(1) have r: "resolveUserIdentifier e w identifier = (Inr None, w3)" by simp
  have t: "tr = (if isEmail identifier
            then [(Picker, identifier, None), (Directory, identifier, None),
                  (Picker, identifier, None)]
            else [(Directory, identifier, None), (Picker, identifier, None)])"
    using k(5) n(1,3) by (cases "isEmail identifier") (auto simp: noUsers_def)
  from r k(1) k(2) k(3) n(2) t show ?thesis by simp
qed

theorem missing_credentials_resolve_to_null_witness:
  "fst (resolveUserIdentifier envNoCredentials freshWorld ''john.doe@example.com'') = Inr None
   \<and> transport_log (snd (resolveUserIdentifier envNoCredentials freshWorld
        ''john.doe@example.com'')) = []
   \<and> strategy_log (snd (resolveUserIdentifier envNoCredentials freshWorld
        ''john.doe@example.com'')) =
       [(Picker, ''john.doe@example.com'', None), (Directory, ''john.doe@example.com'', None),
        (Picker, ''john.doe@example.com'', None)]"
proof -
  have a: "getAtlassianCredentials envNoCredentials = None"
    by (simp add: envNoCredentials_def)
  have b: "''john.doe@example.com'' \<noteq> []" by simp
  have c: "\<not> isAccountId ''john.doe@example.com''" by code_simp
  have d: "fst (UserCache_get freshWorld ''john.doe@example.com'') = None
      \<or> fst (UserCache_get freshWorld ''john.doe@example.com'') = Some []"
    by (simp add: UserCache_get_def freshWorld_def)
  have m: "isEmail ''john.doe@example.com''" by code_simp
  have l: "transport_log freshWorld = []" "strategy_log freshWorld = []"
    by (simp_all add: freshWorld_def)
  from missing_credentials_resolve_to_null [OF a b c d] m l show ?thesis by simp
qed

text \<open>
  With no credentials, resolving \<open>johndoe\<close> from a fresh process returns \<open>null\<close>:
  the call does not end with the missing-credentials error.
\<close>

theorem auth_missing_is_caught_counterexample:
  "getAtlassianCredentials envNoCredentials = None
   \<and> ''johndoe'' \<noteq> [] \<and> \<not> isAccountId ''johndoe''
   \<and> fst (UserCache_get freshWorld ''johndoe'') = None
   \<and> strategy_log (snd (resolveUserIdentifier envNoCredentials freshWorld ''johndoe''))
       = [(Directory, ''johndoe'', None), (Picker, ''johndoe'', None)]
   \<and> fst (resolveUserIdentifier envNoCredentials freshWorld ''johndoe'') = Inr None
   \<and> fst (resolveUserIdentifier envNoCredentials freshWorld ''johndoe'') \<noteq> Inl AuthMissing"
  by code_simp

subsection \<open>How often a search function is called\<close>

text \<open>
  C3 (as the code has it). Every search function called during one resolution is
  called with the identifier as its query. The directory search is called at most
  once and the picker search at most twice. For an identifier that is not
  email-shaped no search function is called twice; the picker search is called twice,
  with the same query, exactly on the path picker, directory, picker of an
  email-shaped identifier whose first two searches gave no users.
\<close>

theorem strategy_calls_per_resolution:
  "\<exists>tr. strategy_log (snd (resolveUserIdentifier e w identifier)) = strategy_log w @ tr
     \<and> (\<forall>x\<in>set tr. fst (snd x) = identifier)
     \<and> length (filter (\<lambda>x. fst x = Directory) tr) \<le> 1
     \<and> length (filter (\<lambda>x. fst x = Picker) tr) \<le> 2
     \<and> (\<not> isEmail identifier \<longrightarrow> distinct (map (\<lambda>x. (fst x, fst (snd x))) tr))
     \<and> (\<not> distinct (map (\<lambda>x. (fst x, fst (snd x))) tr) \<longrightarrow>
          (\<exists>r1 r2 r3. tr = [(Picker, identifier, r1), (Directory, identifier, r2),
                            (Picker, identifier, r3)] \<and> noUsers r1 \<and> noUsers r2))"
proof (cases rule: resolve_cases [of "identifier" e w])
  case (search res w3)
  from resolve_search_summary [OF search(1-3), of e] obtain tr where
    k: "strategy_log (snd (resolveUserIdentifier e w identifier)) = strategy_log w @ tr"
      "if isEmail identifier
         then (tr = [(Picker, identifier, res)] \<and> \<not> noUsers res)
            \<or> (\<exists>r1. tr = [(Picker, identifier, r1), (Directory, identifier, res)]
                  \<and> noUsers r1 \<and> \<not> noUsers res)
            \<or> (\<exists>r1 r2. tr = [(Picker, identifier, r1), (Directory, identifier, r2),
                              (Picker, identifier, res)]
                  \<and> noUsers r1 \<and> noUsers r2)
         else (tr = [(Directory, identifier, res)] \<and> \<not> noUsers res)
            \<or> (\<exists>r2. tr = [(Directory, identifier, r2), (Picker, identifier, res)] \<and> noUsers r2)"
    using search(4) by auto
  show ?thesis
  proof (cases "isEmail identifier")
    case True
    with k(2) have "(tr = [(Picker, identifier, res)] \<and> \<not> noUsers res)
            \<or> (\<exists>r1. tr = [(Picker, identifier, r1), (Directory, identifier, res)]
                  \<and> noUsers r1 \<and> \<not> noUsers res)
            \<or> (\<exists>r1 r2. tr = [(Picker, identifier, r1), (Directory, identifier, r2),
                              (Picker, identifier, res)]
                  \<and> noUsers r1 \<and> noUsers r2)"
      by simp
    with True show ?thesis
      by (intro exI [of _ tr] conjI k(1)) auto
  next
    case False
    with k(2) have "(tr = [(Directory, identifier, res)] \<and> \<not> noUsers res)
            \<or> (\<exists>r2. tr = [(Directory, identifier, r2), (Picker, identifier, res)] \<and> noUsers r2)"
      by simp
    then show ?thesis
      by (intro exI [of _ tr] conjI k(1)) auto
  qed
qed (intro exI [of _ "[]"], simp)+

theorem strategy_calls_per_resolution_witness:
  "\<exists>tr. strategy_log (snd (resolveUserIdentifier envPickerOnly freshWorld ''johndoe'')) = tr
     \<and> distinct (map (\<lambda>x. (fst x, fst (snd x))) tr)
     \<and> (\<forall>x\<in>set tr. fst (snd x) = ''johndoe'')"
proof -
  have n: "\<not> isEmail ''johndoe''" by code_simp
  have l: "strategy_log freshWorld = []" by (simp add: freshWorld_def)
  from strategy_calls_per_resolution [of envPickerOnly freshWorld "''johndoe''"] n l
  show ?thesis by auto
qed

text \<open>
  Both endpoints find nobody for the email-shaped \<open>nonexistent@example.com\<close>: the
  picker search runs first and again last, both times with the same query.
\<close>

theorem picker_called_twice_counterexample:
  "strategy_log (snd (resolveUserIdentifier envNothingFound freshWorld
       ''nonexistent@example.com'')) =
     [(Picker, ''nonexistent@example.com'', Some []),
      (Directory, ''nonexistent@example.com'', Some []),
      (Picker, ''nonexistent@example.com'', Some [])]"
  by code_simp

subsection \<open>The order of the searches\<close>

text \<open>
  C5. For a non-empty, non-canonical identifier with no valid cache entry, the
  searches run in this order: the picker search first if and only if the identifier
  is email-shaped; then the directory search, unless the picker search gave users;
  then the picker search, unless the directory search gave users. Each search but
  the last gave \<open>null\<close> or an empty list, and the resolver chooses from the list of
  the last. In particular, when the identifier is not email-shaped, the directory
  search returns \<open>null\<close> and the picker search then returns a list, the user is
  chosen from that list.
\<close>

theorem fallback_order:
  assumes "identifier \<noteq> []" and "\<not> isAccountId identifier"
    and "fst (UserCache_get w identifier) = None \<or> fst (UserCache_get w identifier) = Some []"
  shows "(\<exists>tr res.
        strategy_log (snd (resolveUserIdentifier e w identifier)) = strategy_log w @ tr
      \<and> (if isEmail identifier
          then (tr = [(Picker, identifier, res)] \<and> \<not> noUsers res)
             \<or> (\<exists>r1. tr = [(Picker, identifier, r1), (Directory, identifier, res)]
                   \<and> noUsers r1 \<and> \<not> noUsers res)
             \<or> (\<exists>r1 r2. tr = [(Picker, identifier, r1), (Directory, identifier, r2),
                               (Picker, identifier, res)]
                   \<and> noUsers r1 \<and> noUsers r2)
          else (tr = [(Directory, identifier, res)] \<and> \<not> noUsers res)
             \<or> (\<exists>r2. tr = [(Directory, identifier, r2), (Picker, identifier, res)]
                   \<and> noUsers r2))
      \<and> fst (resolveUserIdentifier e w identifier) =
           Inr (case res of
                  None \<Rightarrow> None
                | Some us \<Rightarrow>
                    (case chooseUser identifier us of
                       None \<Rightarrow> None
                     | Some u \<Rightarrow> if accountId u \<noteq> [] then Some (accountId u) else None)))
     \<and> (\<forall>us. \<not> isEmail identifier
            \<and> fst (searchUsers e (snd (UserCache_get w identifier)) identifier) = Inr None
            \<and> fst (searchUsersWithPicker e
                     (snd (searchUsers e (snd (UserCache_get w identifier)) identifier))
                     identifier) = Inr (Some us)
          \<longrightarrow> fst (resolveUserIdentifier e w identifier) =
                Inr (case chooseUser identifier us of
                       None \<Rightarrow> None
                     | Some u \<Rightarrow> if accountId u \<noteq> [] then Some (accountId u) else None))"
proof -
  from resolve_search_summary [OF assms, of e] obtain res tr w3 where
    k: "searchChain e (snd (UserCache_get w identifier)) identifier = (Inr res, w3)"
      "strategy_log (snd (resolveUserIdentifier e w identifier)) = strategy_log w @ tr"
      "if isEmail identifier
         then (tr = [(Picker, identifier, res)] \<and> \<not> noUsers res)
            \<or> (\<exists>r1. tr = [(Picker, identifier, r1), (Directory, identifier, res)]
                  \<and> noUsers r1 \<and> \<not> noUsers res)
            \<or> (\<exists>r1 r2. tr = [(Picker, identifier, r1), (Directory, identifier, r2),
                              (Picker, identifier, res)]
                  \<and> noUsers r1 \<and> noUsers r2)
         else (tr = [(Directory, identifier, res)] \<and> \<not> noUsers res)
            \<or> (\<exists>r2. tr = [(Directory, identifier, r2), (Picker, identifier, res)] \<and> noUsers r2)"
      "resolveUserIdentifier e w identifier =
          (case res of
             None \<Rightarrow> (Inr None, w3)
           | Some us \<Rightarrow>
               (case chooseUser identifier us of
                  None \<Rightarrow> (Inr None, w3)
                | Some u \<Rightarrow>
                    if accountId u \<noteq> []
                    then (Inr (Some (accountId u)), UserCache_set w3 identifier (accountId u))
                    else (Inr None, w3)))"
    by (elim exE conjE) (rule that)
  have rv: "fst (resolveUserIdentifier e w identifier) =
           Inr (case res of
                  None \<Rightarrow> None
                | Some us \<Rightarrow>
                    (case chooseUser identifier us of
                       None \<Rightarrow> None
                     | Some u \<Rightarrow> if accountId u \<noteq> [] then Some (accountId u) else None))"
    unfolding k(4) by (simp split: option.splits)
  have particular: "fst (resolveUserIdentifier e w identifier) =
                Inr (case chooseUser identifier us of
                       None \<Rightarrow> None
                     | Some u \<Rightarrow> if accountId u \<noteq> [] then Some (accountId u) else None)"
    if p: "\<not> isEmail identifier
            \<and> fst (searchUsers e (snd (UserCache_get w identifier)) identifier) = Inr None
            \<and> fst (searchUsersWithPicker e
                     (snd (searchUsers e (snd (UserCache_get w identifier)) identifier))
                     identifier) = Inr (Some us)" for us
  proof -
    obtain w1 where d: "searchUsers e (snd (UserCache_get w identifier)) identifier = (Inr None, w1)"
      using p by (cases "searchUsers e (snd (UserCache_get w identifier)) identifier") auto
    with p obtain w2 where "searchUsersWithPicker e w1 identifier = (Inr (Some us), w2)"
      by (cases "searchUsersWithPicker e w1 identifier") auto
    with d p have "searchChain e (snd (UserCache_get w identifier)) identifier = (Inr (Some us), w2)"
      by (simp add: searchChain_def noUsers_def)
    with k(1) have "res = Some us" by simp
    with rv show ?thesis by simp
  qed
  from k(2) k(3) rv have "\<exists>tr res.
        strategy_log (snd (resolveUserIdentifier e w identifier)) = strategy_log w @ tr
      \<and> (if isEmail identifier
          then (tr = [(Picker, identifier, res)] \<and> \<not> noUsers res)
             \<or> (\<exists>r1. tr = [(Picker, identifier, r1), (Directory, identifier, res)]
                   \<and> noUsers r1 \<and> \<not> noUsers res)
             \<or> (\<exists>r1 r2. tr = [(Picker, identifier, r1), (Directory, identifier, r2),
                               (Picker, identifier, res)]
                   \<and> noUsers r1 \<and> noUsers r2)
          else (tr = [(Directory, identifier, res)] \<and> \<not> noUsers res)
             \<or> (\<exists>r2. tr = [(Directory, identifier, r2), (Picker, identifier, res)]
                   \<and> noUsers r2))
      \<and> fst (resolveUserIdentifier e w identifier) =
           Inr (case res of
                  None \<Rightarrow> None
                | Some us \<Rightarrow>
                    (case chooseUser identifier us of
                       None \<Rightarrow> None
                     | Some u \<Rightarrow> if accountId u \<noteq> [] then Some (accountId u) else None))"
    by (intro exI [of _ tr] exI [of _ res] conjI)
  with particular show ?thesis by blast
qed

lemma chooseUser_johndoe: "chooseUser ''johndoe'' [janeRoe, johnDoe] = Some johnDoe"
  by code_simp

theorem fallback_order_witness:
  "fst (searchUsers envPickerOnly freshWorld ''johndoe'') = Inr None
   \<and> fst (searchUsersWithPicker envPickerOnly
            (snd (searchUsers envPickerOnly freshWorld ''johndoe'')) ''johndoe'')
       = Inr (Some [janeRoe, johnDoe])
   \<and> fst (resolveUserIdentifier envPickerOnly freshWorld ''johndoe'')
       = Inr (Some ''557058:user-id-456'')"
proof -
  have a: "''johndoe'' \<noteq> []" "\<not> isAccountId ''johndoe''"
    by (simp, code_simp)
  have g: "UserCache_get freshWorld ''johndoe'' = (None, freshWorld)"
    by (simp add: UserCache_get_def freshWorld_def)
  then have m: "fst (UserCache_get freshWorld ''johndoe'') = None
       \<or> fst (UserCache_get freshWorld ''johndoe'') = Some []"
    by simp
  have n: "\<not> isEmail ''johndoe''" by code_simp
  have d: "fst (searchUsers envPickerOnly freshWorld ''johndoe'') = Inr None"
    by (simp add: searchUsers_def searchUsers_try_def envPickerOnly_def Let_def)
  have p: "fst (searchUsersWithPicker envPickerOnly
            (snd (searchUsers envPickerOnly freshWorld ''johndoe'')) ''johndoe'')
       = Inr (Some [janeRoe, johnDoe])"
    by (simp add: searchUsersWithPicker_def searchUsersWithPicker_try_def envPickerOnly_def
        Let_def)
  have i: "accountId johnDoe = ''557058:user-id-456''" by (simp add: johnDoe_def)
  from fallback_order [OF a m, of envPickerOnly] n d p
  have "fst (resolveUserIdentifier envPickerOnly freshWorld ''johndoe'') =
      Inr (case chooseUser ''johndoe'' [janeRoe, johnDoe] of
             None \<Rightarrow> None
           | Some u \<Rightarrow> if accountId u \<noteq> [] then Some (accountId u) else None)"
    by (simp add: g)
  with d p i show ?thesis by (simp add: chooseUser_johndoe)
qed

subsection \<open>Which user is chosen\<close>

lemma chooseUser_index:
  assumes "us \<noteq> []"
  shows "\<exists>n<length us. chooseUser i us = Some (us ! n)
     \<and> (\<forall>k<n. \<not> exactMatch i (us ! k))
     \<and> (exactMatch i (us ! n) \<or> (n = 0 \<and> (\<forall>m\<in>set us. \<not> exactMatch i m)))"
proof (cases "find (exactMatch i) us")
  case None
  then have "\<forall>m\<in>set us. \<not> exactMatch i m"
    by (simp add: find_None_iff)
  moreover from None assms have "chooseUser i us = Some (us ! 0)"
    by (cases us) (simp_all add: chooseUser_def)
  ultimately show ?thesis using assms by (intro exI [of _ 0]) simp
next
  case (Some u)
  then obtain n where "n < length us" "exactMatch i (us ! n)" "u = us ! n"
    "\<forall>k<n. \<not> exactMatch i (us ! k)"
    unfolding find_Some_iff by blast
  with Some show ?thesis
    by (intro exI [of _ n]) (simp add: chooseUser_def)
qed

text \<open>
  C8. When a search of a resolution returns a non-empty list, it is the last search
  of that resolution and every search before it gave \<open>null\<close> or an empty list. From
  that list the resolver takes the first user whose email address, login name or
  display name has the same lower-cased form as the identifier; when no user of the
  list has, it takes the user at index 0. It returns the account id of the user taken
  (and \<open>null\<close> when that account id is the empty string).
\<close>

theorem exact_match_else_first:
  assumes "strategy_log (snd (resolveUserIdentifier e w identifier)) = strategy_log w @ tr"
    and "(s, q, Some us) \<in> set tr" and "us \<noteq> []"
  shows "last tr = (s, q, Some us)
     \<and> (\<forall>x\<in>set (butlast tr). noUsers (snd (snd x)))
     \<and> (\<exists>n<length us.
           (\<forall>k<n. \<not> exactMatch identifier (us ! k))
         \<and> (exactMatch identifier (us ! n)
              \<or> (n = 0 \<and> (\<forall>m\<in>set us. \<not> exactMatch identifier m)))
         \<and> fst (resolveUserIdentifier e w identifier) =
              Inr (if accountId (us ! n) \<noteq> [] then Some (accountId (us ! n)) else None))"
proof (cases rule: resolve_cases [of "identifier" e w])
  case (search res w3)
  from resolve_search_summary [OF search(1-3), of e] obtain tr' where
    k: "strategy_log (snd (resolveUserIdentifier e w identifier)) = strategy_log w @ tr'"
      "if isEmail identifier
         then (tr' = [(Picker, identifier, res)] \<and> \<not> noUsers res)
            \<or> (\<exists>r1. tr' = [(Picker, identifier, r1), (Directory, identifier, res)]
                  \<and> noUsers r1 \<and> \<not> noUsers res)
            \<or> (\<exists>r1 r2. tr' = [(Picker, identifier, r1), (Directory, identifier, r2),
                              (Picker, identifier, res)]
                  \<and> noUsers r1 \<and> noUsers r2)
         else (tr' = [(Directory, identifier, res)] \<and> \<not> noUsers res)
            \<or> (\<exists>r2. tr' = [(Directory, identifier, r2), (Picker, identifier, res)] \<and> noUsers r2)"
    using search(4) by auto
  from k(1) assms(1) have tr: "tr' = tr" by simp
  from assms(3) have nu: "\<not> noUsers (Some us)" by (simp add: noUsers_def)
  from k(2) have shape: "(\<exists>st. tr = [(st, identifier, res)])
       \<or> (\<exists>st1 r1 st. tr = [(st1, identifier, r1), (st, identifier, res)] \<and> noUsers r1)
       \<or> (\<exists>st1 r1 st2 r2 st. tr = [(st1, identifier, r1), (st2, identifier, r2),
              (st, identifier, res)] \<and> noUsers r1 \<and> noUsers r2)"
    unfolding tr by (auto split: if_splits)
  with assms(2) nu have l: "last tr = (s, q, Some us)" and r: "res = Some us"
    and b: "\<forall>x\<in>set (butlast tr). noUsers (snd (snd x))"
    by auto
  from chooseUser_index [OF assms(3), of "identifier"] obtain n where
    n: "n < length us" "chooseUser identifier us = Some (us ! n)"
      "\<forall>k<n. \<not> exactMatch identifier (us ! k)"
      "exactMatch identifier (us ! n) \<or> (n = 0 \<and> (\<forall>m\<in>set us. \<not> exactMatch identifier m))"
    by blast
  from resolve_after_search [OF search] r n(2)
  have "fst (resolveUserIdentifier e w identifier) =
      Inr (if accountId (us ! n) \<noteq> [] then Some (accountId (us ! n)) else None)"
    by simp
  with n(1,3,4) have "\<exists>n<length us.
           (\<forall>k<n. \<not> exactMatch identifier (us ! k))
         \<and> (exactMatch identifier (us ! n)
              \<or> (n = 0 \<and> (\<forall>m\<in>set us. \<not> exactMatch identifier m)))
         \<and> fst (resolveUserIdentifier e w identifier) =
              Inr (if accountId (us ! n) \<noteq> [] then Some (accountId (us ! n)) else None)"
    by blast
  with l b show ?thesis by (intro conjI)
next
  case empty
  with assms(1,2) show ?thesis by simp
next
  case canonical
  with assms(1,2) show ?thesis by simp
next
  case (hit c)
  with assms(1,2) show ?thesis by simp
qed

lemma exactMatch_johndoe:
  "\<not> exactMatch ''johndoe'' janeRoe" "exactMatch ''johndoe'' johnDoe"
  by code_simp+

theorem exact_match_else_first_witness:
  "strategy_log (snd (resolveUserIdentifier envPickerOnly freshWorld ''johndoe''))
     = [(Directory, ''johndoe'', None), (Picker, ''johndoe'', Some [janeRoe, johnDoe])]
   \<and> exactMatch ''johndoe'' ([janeRoe, johnDoe] ! 1)
   \<and> fst (resolveUserIdentifier envPickerOnly freshWorld ''johndoe'')
       = Inr (Some ''557058:user-id-456'')"
proof -
  have t: "strategy_log (snd (resolveUserIdentifier envPickerOnly freshWorld ''johndoe''))
     = strategy_log freshWorld
        @ [(Directory, ''johndoe'', None), (Picker, ''johndoe'', Some [janeRoe, johnDoe])]"
    by code_simp
  have m: "(Picker, ''johndoe'', Some [janeRoe, johnDoe])
      \<in> set [(Directory, ''johndoe'', None), (Picker, ''johndoe'', Some [janeRoe, johnDoe])]"
    by simp
  have ne: "[janeRoe, johnDoe] \<noteq> []" by simp
  from exact_match_else_first [OF t m ne] obtain n where
    n: "n < length [janeRoe, johnDoe]"
      "exactMatch ''johndoe'' ([janeRoe, johnDoe] ! n)
         \<or> (n = 0 \<and> (\<forall>m\<in>set [janeRoe, johnDoe]. \<not> exactMatch ''johndoe'' m))"
      "fst (resolveUserIdentifier envPickerOnly freshWorld ''johndoe'') =
         Inr (if accountId ([janeRoe, johnDoe] ! n) \<noteq> []
              then Some (accountId ([janeRoe, johnDoe] ! n)) else None)"
    by blast
  from n(1) have "n = 0 \<or> n = 1" by auto
  with n(2) exactMatch_johndoe have "n = 1" by auto
  with n(3) have "fst (resolveUserIdentifier envPickerOnly freshWorld ''johndoe'')
       = Inr (Some ''557058:user-id-456'')"
    by (simp add: johnDoe_def)
  moreover have "strategy_log freshWorld = []" by (simp add: freshWorld_def)
  ultimately show ?thesis using t exactMatch_johndoe(2) by simp
qed

subsection \<open>Writes to the cache\<close>

lemma TTL_value: "TTL = 3600000"
  by (simp add: TTL_def)

text \<open>
  C6 (as the code has it). A resolution leaves every cache entry under another key
  as it was. The entry under the identifier's lower-cased key is afterwards either
  as before, or deleted because it had expired (the cache read purges it), or the
  entry written for a user that a search of this resolution returned, with a
  non-empty account id, which is the value returned. In particular, when searches
  ran and each returned \<open>null\<close> or an empty list, the resolver returns \<open>null\<close> and
  writes nothing: the entry under the key is as before or purged.
\<close>

theorem cache_written_only_for_found_user:
  "(\<forall>k. k \<noteq> toLowerCase identifier \<longrightarrow>
        cache (snd (resolveUserIdentifier e w identifier)) k = cache w k)
   \<and> (cache (snd (resolveUserIdentifier e w identifier)) (toLowerCase identifier)
         = cache w (toLowerCase identifier)
      \<or> (cache (snd (resolveUserIdentifier e w identifier)) (toLowerCase identifier) = None
          \<and> (\<exists>en. cache w (toLowerCase identifier) = Some en
                \<and> 3600000 \<le> now w - timestamp en))
      \<or> (\<exists>tr s us u.
            strategy_log (snd (resolveUserIdentifier e w identifier)) = strategy_log w @ tr
          \<and> (s, identifier, Some us) \<in> set tr \<and> u \<in> set us \<and> accountId u \<noteq> []
          \<and> fst (resolveUserIdentifier e w identifier) = Inr (Some (accountId u))
          \<and> cache (snd (resolveUserIdentifier e w identifier)) (toLowerCase identifier)
              = Some \<lparr>entryAccountId = accountId u,
                      timestamp = now (snd (resolveUserIdentifier e w identifier))\<rparr>))
   \<and> (\<forall>tr. strategy_log (snd (resolveUserIdentifier e w identifier)) = strategy_log w @ tr
          \<and> tr \<noteq> [] \<and> (\<forall>x\<in>set tr. noUsers (snd (snd x)))
        \<longrightarrow> fst (resolveUserIdentifier e w identifier) = Inr None
          \<and> (cache (snd (resolveUserIdentifier e w identifier)) (toLowerCase identifier)
                = cache w (toLowerCase identifier)
             \<or> (cache (snd (resolveUserIdentifier e w identifier)) (toLowerCase identifier)
                   = None
                 \<and> (\<exists>en. cache w (toLowerCase identifier) = Some en
                       \<and> 3600000 \<le> now w - timestamp en))))"
proof (cases rule: resolve_cases [of "identifier" e w])
  case (search res w3)
  from resolve_search_summary [OF search(1-3), of e] obtain tr where
    k: "cache w3 = cache (snd (UserCache_get w identifier))"
      "strategy_log (snd (resolveUserIdentifier e w identifier)) = strategy_log w @ tr"
      "now (snd (resolveUserIdentifier e w identifier)) = now w3"
      "if isEmail identifier
         then (tr = [(Picker, identifier, res)] \<and> \<not> noUsers res)
            \<or> (\<exists>r1. tr = [(Picker, identifier, r1), (Directory, identifier, res)]
                  \<and> noUsers r1 \<and> \<not> noUsers res)
            \<or> (\<exists>r1 r2. tr = [(Picker, identifier, r1), (Directory, identifier, r2),
                              (Picker, identifier, res)]
                  \<and> noUsers r1 \<and> noUsers r2)
         else (tr = [(Directory, identifier, res)] \<and> \<not> noUsers res)
            \<or> (\<exists>r2. tr = [(Directory, identifier, r2), (Picker, identifier, res)] \<and> noUsers r2)"
    using search(4) by auto
  from k(4) have "tr \<noteq> [] \<and> (\<exists>s. last tr = (s, identifier, res))"
    by (auto split: if_splits)
  then obtain s where "tr \<noteq> []" "last tr = (s, identifier, res)"
    by blast
  with last_in_set [of tr] have inset: "(s, identifier, res) \<in> set tr"
    by simp
  note eq = resolve_after_search [OF search]
  have other: "\<forall>k. k \<noteq> toLowerCase identifier \<longrightarrow> cache w3 k = cache w k"
    and key: "cache w3 (toLowerCase identifier) = cache w (toLowerCase identifier)
      \<or> (cache w3 (toLowerCase identifier) = None
          \<and> (\<exists>en. cache w (toLowerCase identifier) = Some en
                \<and> 3600000 \<le> now w - timestamp en))"
    using UserCache_get_other_keys [of _ "identifier" w] UserCache_get_key [of w "identifier"]
    by (simp_all add: k(1) TTL_value)
  consider (none) "resolveUserIdentifier e w identifier = (Inr None, w3)"
      "noUsers res \<or> (\<exists>us u. res = Some us \<and> chooseUser identifier us = Some u \<and> accountId u = [])"
    | (found) us u where "res = Some us" "chooseUser identifier us = Some u" "us \<noteq> []"
      "accountId u \<noteq> []"
      "resolveUserIdentifier e w identifier =
         (Inr (Some (accountId u)), UserCache_set w3 identifier (accountId u))"
  proof (cases res)
    case None
    with eq that(1) show ?thesis by (simp add: noUsers_def)
  next
    case (Some us)
    show ?thesis
    proof (cases "chooseUser identifier us")
      case None
      with Some eq chooseUser_Some [of us "identifier"] that(1) show ?thesis
        by (cases "us = []") (auto simp: noUsers_def)
    next
      case u: (Some u)
      with chooseUser_Nil [of "identifier"] have "us \<noteq> []" by auto
      with Some u eq that show ?thesis
        by (cases "accountId u = []") auto
    qed
  qed
  then show ?thesis
  proof cases
    case none
    from none(1) other key k(2) show ?thesis by simp
  next
    case found
    from chooseUser_Some [OF found(3), of "identifier"] found(2) have "u \<in> set us" by auto
    with found inset k(2) k(3)
    have w: "\<exists>tr s us u.
            strategy_log (snd (resolveUserIdentifier e w identifier)) = strategy_log w @ tr
          \<and> (s, identifier, Some us) \<in> set tr \<and> u \<in> set us \<and> accountId u \<noteq> []
          \<and> fst (resolveUserIdentifier e w identifier) = Inr (Some (accountId u))
          \<and> cache (snd (resolveUserIdentifier e w identifier)) (toLowerCase identifier)
              = Some \<lparr>entryAccountId = accountId u,
                      timestamp = now (snd (resolveUserIdentifier e w identifier))\<rparr>"
      by (intro exI [of _ tr] exI [of _ s] exI [of _ us] exI [of _ u])
         (simp add: UserCache_set_simps)
    from found(5) other have o: "\<forall>k. k \<noteq> toLowerCase identifier \<longrightarrow>
        cache (snd (resolveUserIdentifier e w identifier)) k = cache w k"
      by (simp add: UserCache_set_simps)
    from found(3) have "\<not> noUsers (snd (snd (s, identifier, Some us)))"
      by (simp add: noUsers_def)
    with inset found(1) have "\<exists>x\<in>set tr. \<not> noUsers (snd (snd x))"
      by blast
    with k(2) have "\<forall>tr'.
        strategy_log (snd (resolveUserIdentifier e w identifier)) = strategy_log w @ tr'
          \<and> tr' \<noteq> [] \<longrightarrow> \<not> (\<forall>x\<in>set tr'. noUsers (snd (snd x)))"
      by auto
    with w o show ?thesis by blast
  qed
qed simp_all

theorem cache_written_only_for_found_user_witness:
  "strategy_log (snd (resolveUserIdentifier envNothingFound freshWorld ''nobody''))
     = [(Directory, ''nobody'', Some []), (Picker, ''nobody'', Some [])]
   \<and> fst (resolveUserIdentifier envNothingFound freshWorld ''nobody'') = Inr None
   \<and> cache (snd (resolveUserIdentifier envNothingFound freshWorld ''nobody''))
        (toLowerCase ''nobody'') = None"
proof -
  have t: "strategy_log (snd (resolveUserIdentifier envNothingFound freshWorld ''nobody''))
     = strategy_log freshWorld @ [(Directory, ''nobody'', Some []), (Picker, ''nobody'', Some [])]"
    by code_simp
  have n: "[(Directory, ''nobody'', Some []), (Picker, ''nobody'', Some [])] \<noteq> []
     \<and> (\<forall>x\<in>set [(Directory, ''nobody'', Some []), (Picker, ''nobody'', Some [])].
           noUsers (snd (snd x)))"
    by (simp add: noUsers_def)
  have c: "cache freshWorld (toLowerCase ''nobody'') = None"
    by (simp add: freshWorld_def)
  have l: "strategy_log freshWorld = []" by (simp add: freshWorld_def)
  from cache_written_only_for_found_user [of "''nobody''" envNothingFound freshWorld] t n
  have "fst (resolveUserIdentifier envNothingFound freshWorld ''nobody'') = Inr None
     \<and> (cache (snd (resolveUserIdentifier envNothingFound freshWorld ''nobody''))
            (toLowerCase ''nobody'') = cache freshWorld (toLowerCase ''nobody'')
        \<or> (cache (snd (resolveUserIdentifier envNothingFound freshWorld ''nobody''))
              (toLowerCase ''nobody'') = None
            \<and> (\<exists>en. cache freshWorld (toLowerCase ''nobody'') = Some en
                  \<and> 3600000 \<le> now freshWorld - timestamp en)))"
    by blast
  with t c l show ?thesis by auto
qed

text \<open>
  The cache holds an entry for \<open>bob\<close> that is one hour old and both endpoints find
  nobody: the resolver returns \<open>null\<close>, and the cache has changed, the entry is gone.
\<close>

theorem expired_entry_purged_counterexample:
  "strategy_log (snd (resolveUserIdentifier envNothingFound staleWorld ''bob''))
     = [(Directory, ''bob'', Some []), (Picker, ''bob'', Some [])]
   \<and> fst (resolveUserIdentifier envNothingFound staleWorld ''bob'') = Inr None
   \<and> cache staleWorld ''bob'' = Some \<lparr>entryAccountId = ''557058:old'', timestamp = 0\<rparr>
   \<and> cache (snd (resolveUserIdentifier envNothingFound staleWorld ''bob'')) ''bob'' = None"
  by code_simp

subsection \<open>A second call within the TTL\<close>

text \<open>
  C9 (as the code has it). When a call returns an account id, a second call for the
  same identifier, made at a time \<open>t\<close> at which the cache entry for the identifier
  (if any) is less than 3600000 ms old, returns the same account id and changes
  nothing: it makes no transport call. After a first call that had to search, that
  entry is the one it wrote, stamped with the time at which it returned. The first
  call makes at most three transport calls.
\<close>

theorem second_call_without_transport:
  assumes "resolveUserIdentifier e w identifier = (Inr (Some a), w1)"
    and "\<forall>en. cache w1 (toLowerCase identifier) = Some en \<longrightarrow> t - timestamp en < 3600000"
  shows "resolveUserIdentifier e (w1\<lparr>now := t\<rparr>) identifier = (Inr (Some a), w1\<lparr>now := t\<rparr>)
     \<and> (\<exists>reqs. transport_log w1 = transport_log w @ reqs \<and> length reqs \<le> 3)
     \<and> (identifier \<noteq> [] \<and> \<not> isAccountId identifier
          \<and> (fst (UserCache_get w identifier) = None \<or> fst (UserCache_get w identifier) = Some [])
        \<longrightarrow> cache w1 (toLowerCase identifier)
              = Some \<lparr>entryAccountId = a, timestamp = now w1\<rparr>)"
proof (cases rule: resolve_cases [of "identifier" e w])
  case empty
  with assms(1) show ?thesis by simp
next
  case canonical
  with assms(1) have "w1 = w" "a = identifier" by simp_all
  with canonical show ?thesis by (simp add: resolveUserIdentifier_def)
next
  case (hit c)
  with assms(1) have e: "w1 = w" "a = c" by simp_all
  from hit(3) UserCache_get_hit [of w "identifier" c] obtain en where
    en: "cache w (toLowerCase identifier) = Some en" "entryAccountId en = c"
    by auto
  with assms(2) e have "t - timestamp en < TTL" by (simp add: TTL_value)
  with en have "UserCache_get (w\<lparr>now := t\<rparr>) identifier = (Some c, w\<lparr>now := t\<rparr>)"
    by (simp add: UserCache_get_def)
  with hit e show ?thesis by (simp add: resolveUserIdentifier_def)
next
  case (search res w3)
  from resolve_search_summary [OF search(1-3), of e] obtain tr reqs where
    k: "transport_log (snd (resolveUserIdentifier e w identifier)) = transport_log w @ reqs"
      "length reqs \<le> length tr"
      "now (snd (resolveUserIdentifier e w identifier)) = now w3"
      "if isEmail identifier
         then (tr = [(Picker, identifier, res)] \<and> \<not> noUsers res)
            \<or> (\<exists>r1. tr = [(Picker, identifier, r1), (Directory, identifier, res)]
                  \<and> noUsers r1 \<and> \<not> noUsers res)
            \<or> (\<exists>r1 r2. tr = [(Picker, identifier, r1), (Directory, identifier, r2),
                              (Picker, identifier, res)]
                  \<and> noUsers r1 \<and> noUsers r2)
         else (tr = [(Directory, identifier, res)] \<and> \<not> noUsers res)
            \<or> (\<exists>r2. tr = [(Directory, identifier, r2), (Picker, identifier, res)] \<and> noUsers r2)"
    using search(4) by auto
  from k(4) have "length tr \<le> 3" by (auto split: if_splits)
  with k(1,2) assms(1) have reqs: "\<exists>reqs. transport_log w1 = transport_log w @ reqs \<and> length reqs \<le> 3"
    by auto
  from resolve_after_search [OF search] assms(1)
  have w1: "a \<noteq> []" "w1 = UserCache_set w3 identifier a"
    by (auto split: option.splits if_splits)
  then have entry: "cache w1 (toLowerCase identifier)
      = Some \<lparr>entryAccountId = a, timestamp = now w1\<rparr>"
    by (simp add: UserCache_set_simps)
  with assms(2) have "t - now w1 < TTL" by (simp add: TTL_value)
  with entry have "UserCache_get (w1\<lparr>now := t\<rparr>) identifier = (Some a, w1\<lparr>now := t\<rparr>)"
    by (simp add: UserCache_get_def)
  with search(1,2) w1(1)
  have "resolveUserIdentifier e (w1\<lparr>now := t\<rparr>) identifier = (Inr (Some a), w1\<lparr>now := t\<rparr>)"
    by (simp add: resolveUserIdentifier_def)
  with reqs entry show ?thesis by simp
qed

theorem second_call_without_transport_witness:
  "resolveUserIdentifier envPickerOnly
      ((snd (resolveUserIdentifier envPickerOnly freshWorld ''johndoe''))\<lparr>now := 3600009\<rparr>)
      ''johndoe''
    = (Inr (Some ''557058:user-id-456''),
       (snd (resolveUserIdentifier envPickerOnly freshWorld ''johndoe''))\<lparr>now := 3600009\<rparr>)"
proof -
  have r: "fst (resolveUserIdentifier envPickerOnly freshWorld ''johndoe'')
      = Inr (Some ''557058:user-id-456'')"
    by code_simp
  then have a: "resolveUserIdentifier envPickerOnly freshWorld ''johndoe''
      = (Inr (Some ''557058:user-id-456''),
         snd (resolveUserIdentifier envPickerOnly freshWorld ''johndoe''))"
    by (simp add: prod_eq_iff)
  have c: "cache (snd (resolveUserIdentifier envPickerOnly freshWorld ''johndoe''))
       (toLowerCase ''johndoe'')
      = Some \<lparr>entryAccountId = ''557058:user-id-456'', timestamp = 10\<rparr>"
    by code_simp
  then have b: "\<forall>en. cache (snd (resolveUserIdentifier envPickerOnly freshWorld ''johndoe''))
       (toLowerCase ''johndoe'') = Some en \<longrightarrow> 3600009 - timestamp en < 3600000"
    by simp
  from second_call_without_transport [OF a b] show ?thesis by simp
qed

text \<open>
  The directory endpoint rejects and the picker endpoint finds \<open>johndoe\<close>: the first
  call makes two transport calls, the second none, two in total and not one.
\<close>

theorem two_transport_calls_counterexample:
  "fst (resolveUserIdentifier envPickerOnly freshWorld ''johndoe'')
     = Inr (Some ''557058:user-id-456'')
   \<and> fst (resolveUserIdentifier envPickerOnly
            (snd (resolveUserIdentifier envPickerOnly freshWorld ''johndoe'')) ''johndoe'')
       = Inr (Some ''557058:user-id-456'')
   \<and> map snd (transport_log (snd (resolveUserIdentifier envPickerOnly
            (snd (resolveUserIdentifier envPickerOnly freshWorld ''johndoe'')) ''johndoe'')))
       = [''/rest/api/3/user/search?query=johndoe&maxResults=10'',
          ''/rest/api/3/groupuserpicker?query=johndoe&maxResults=10&showAvatar=false'']"
  by code_simp

end
